theory Spec2Isabelle
  imports Complex_Main
begin

section \<open>Three-point curve measurement: the numerical core\<close>

text \<open>
  The development follows \<^verbatim>\<open>src/scripts/threePointsCurve.js\<close> and
  \<^verbatim>\<open>src/scripts/ThreePointsCurve.js\<close>. The first section reads JavaScript
  numbers as real numbers, that is, it computes exactly; the second section repeats the
  numerical functions with the rounding of IEEE doubles, and the results that depend on
  rounding are stated for it. JavaScript arrays are lists (storage limits are outside the
  model).
\<close>

subsection \<open>Cartesian3\<close>

text \<open>
  The Cesium class \<^verbatim>\<open>Cartesian3\<close> has the three numeric fields x, y and z. The
  operations below are the library's static functions of the same names, each of which the
  scripts or the spline use.
\<close>

datatype Cartesian3 = Cartesian3 (cx: real) (cy: real) (cz: real)

definition subtract :: "Cartesian3 \<Rightarrow> Cartesian3 \<Rightarrow> Cartesian3" where
  "subtract left right = Cartesian3 (cx left - cx right) (cy left - cy right) (cz left - cz right)"

definition add :: "Cartesian3 \<Rightarrow> Cartesian3 \<Rightarrow> Cartesian3" where
  "add left right = Cartesian3 (cx left + cx right) (cy left + cy right) (cz left + cz right)"

definition multiplyByScalar :: "Cartesian3 \<Rightarrow> real \<Rightarrow> Cartesian3" where
  "multiplyByScalar c s = Cartesian3 (cx c * s) (cy c * s) (cz c * s)"

definition magnitudeSquared :: "Cartesian3 \<Rightarrow> real" where
  "magnitudeSquared c = cx c * cx c + cy c * cy c + cz c * cz c"

definition magnitude :: "Cartesian3 \<Rightarrow> real" where
  "magnitude c = sqrt (magnitudeSquared c)"

definition distance :: "Cartesian3 \<Rightarrow> Cartesian3 \<Rightarrow> real" where
  "distance left right = magnitude (subtract left right)"

subsection \<open>measureCurveDistance\<close>

text \<open>
  \<^verbatim>\<open>curvePoints.reduce((acc, point, i, arr) => i > 0 ? acc + distance(arr[i - 1], point) : acc, 0)\<close>:
  the callback is run for the indices 0, 1, ..., length - 1 in this order, with the
  accumulator starting at 0. Inside the callback \<open>point\<close> is \<open>arr[i]\<close>, and \<open>i - 1\<close> is only
  read when \<open>i > 0\<close>, so every read is in range.
\<close>

definition measureCurveDistance :: "Cartesian3 list \<Rightarrow> real" where
  "measureCurveDistance curvePoints =
     fold (\<lambda>i acc. if i > 0 then acc + distance (curvePoints ! (i - 1)) (curvePoints ! i) else acc)
          [0..<length curvePoints] 0"

text \<open>The same length, by recursion on the list; used in the proofs only.\<close>

fun pathLength :: "Cartesian3 list \<Rightarrow> real" where
  "pathLength [] = 0"
| "pathLength [p] = 0"
| "pathLength (p # q # ps) = distance p q + pathLength (q # ps)"

subsection \<open>CatmullRomSpline\<close>

text \<open>
  Modelled from the spec: the class \<^verbatim>\<open>Cesium.CatmullRomSpline\<close> that
  \<^verbatim>\<open>createCurvePoints\<close> instantiates belongs to the Cesium library and is not under
  \<^verbatim>\<open>src/\<close>. The spec (section 4.1) asks for an interpolating spline through the control
  points at the given knots, built from cubic Hermite segments whose interior tangents come
  from the neighbouring control points and whose end tangents are one-sided estimates. The
  definitions below write that construction out the way the library computes it: the argument
  checks of the constructor, the two end tangents, the search for the knot interval, and the
  blend of four vectors with the coefficients of the Hermite (end segments) or Catmull-Rom
  (interior segments) basis.
\<close>

datatype error =
    PointsTooFew          \<comment> \<open>fewer than two control points\<close>
  | TimesLengthMismatch   \<comment> \<open>as many knots as control points are required\<close>
  | TimeOutOfRange        \<comment> \<open>evaluation outside the first and last knot\<close>
  | UndefinedValue        \<comment> \<open>a property of an undefined value is read\<close>

record CatmullRomSpline =
  spline_times :: "real list"
  spline_points :: "Cartesian3 list"
  firstTangent :: "Cartesian3 option"
  lastTangent :: "Cartesian3 option"

definition new_CatmullRomSpline :: "real list \<Rightarrow> Cartesian3 list \<Rightarrow> error + CatmullRomSpline" where
  "new_CatmullRomSpline ts ps =
     (if length ps < 2 then Inl PointsTooFew
      else if length ts \<noteq> length ps then Inl TimesLengthMismatch
      else Inr \<lparr> spline_times = ts, spline_points = ps,
                 firstTangent =
                   (if length ps > 2
                    then Some (multiplyByScalar
                                 (subtract (subtract (multiplyByScalar (ps ! 1) 2) (ps ! 2)) (ps ! 0))
                                 (1/2))
                    else None),
                 lastTangent =
                   (if length ps > 2
                    then (let n = length ps - 1
                          in Some (multiplyByScalar
                                     (add (subtract (ps ! n) (multiplyByScalar (ps ! (n - 1)) 2))
                                          (ps ! (n - 2)))
                                     (1/2)))
                    else None) \<rparr>)"

text \<open>
  The index of the knot interval that holds \<open>time\<close>: the first \<open>i\<close> with
  \<open>time < times[i + 1]\<close>, and the last interval when there is none (\<open>time\<close> is the last
  knot). The library caches the index of its previous answer to start the search there; the
  answer itself does not depend on the cache, which is left out.
\<close>

fun findTimeInterval :: "real list \<Rightarrow> real \<Rightarrow> nat" where
  "findTimeInterval (t0 # t1 # ts) time =
     (if ts = [] \<or> time < t1 then 0 else Suc (findTimeInterval (t1 # ts) time))"
| "findTimeInterval ts time = 0"

text \<open>The rows of the two coefficient matrices applied to \<open>(u\<^sup>3, u\<^sup>2, u, 1)\<close>.\<close>

definition hermiteCoefficients :: "real \<Rightarrow> real \<times> real \<times> real \<times> real" where
  "hermiteCoefficients u =
     (2 * (u * u * u) - 3 * (u * u) + 1,
      - 2 * (u * u * u) + 3 * (u * u),
      u * u * u - 2 * (u * u) + u,
      u * u * u - u * u)"

definition catmullRomCoefficients :: "real \<Rightarrow> real \<times> real \<times> real \<times> real" where
  "catmullRomCoefficients u =
     (- (1/2) * (u * u * u) + u * u - (1/2) * u,
      (3/2) * (u * u * u) - (5/2) * (u * u) + 1,
      - (3/2) * (u * u * u) + 2 * (u * u) + (1/2) * u,
      (1/2) * (u * u * u) - (1/2) * (u * u))"

definition blend ::
  "Cartesian3 \<Rightarrow> Cartesian3 \<Rightarrow> Cartesian3 \<Rightarrow> Cartesian3 \<Rightarrow> real \<times> real \<times> real \<times> real \<Rightarrow> Cartesian3" where
  "blend p0 p1 p2 p3 coefs =
     (case coefs of (c0, c1, c2, c3) \<Rightarrow>
        add (add (add (multiplyByScalar p0 c0) (multiplyByScalar p1 c1)) (multiplyByScalar p2 c2))
            (multiplyByScalar p3 c3))"

definition lerp :: "Cartesian3 \<Rightarrow> Cartesian3 \<Rightarrow> real \<Rightarrow> Cartesian3" where
  "lerp start end t = add (multiplyByScalar end t) (multiplyByScalar start (1 - t))"

definition evaluate :: "CatmullRomSpline \<Rightarrow> real \<Rightarrow> error + Cartesian3" where
  "evaluate spline time =
     (let ts = spline_times spline; ps = spline_points spline
      in if time < ts ! 0 \<or> time > ts ! (length ts - 1) then Inl TimeOutOfRange
         else if length ps < 3
         then Inr (lerp (ps ! 0) (ps ! 1) ((time - ts ! 0) * (1 / (ts ! 1 - ts ! 0))))
         else
           (let i = findTimeInterval ts time;
                u = (time - ts ! i) / (ts ! (i + 1) - ts ! i)
            in if i = 0
               then (case firstTangent spline of
                       None \<Rightarrow> Inl UndefinedValue
                     | Some ft \<Rightarrow>
                         Inr (blend (ps ! 0) (ps ! 1) ft
                                (multiplyByScalar (subtract (ps ! 2) (ps ! 0)) (1/2))
                                (hermiteCoefficients u)))
               else if i = length ps - 2
               then (case lastTangent spline of
                       None \<Rightarrow> Inl UndefinedValue
                     | Some lt \<Rightarrow>
                         Inr (blend (ps ! i) (ps ! (i + 1))
                                (multiplyByScalar (subtract (ps ! (i + 1)) (ps ! (i - 1))) (1/2)) lt
                                (hermiteCoefficients u)))
               else Inr (blend (ps ! (i - 1)) (ps ! i) (ps ! (i + 1)) (ps ! (i + 2))
                           (catmullRomCoefficients u))))"

subsection \<open>createCurvePoints\<close>

text \<open>
  \<^verbatim>\<open>Array.from({ length: n }, (_, i) => f(i))\<close> calls \<open>f\<close> on 0, 1, ..., n - 1 in this
  order and collects the results; a call that throws ends the whole expression with that
  error. A length that is not positive gives the empty array.
\<close>

fun collect :: "(error + 'a) list \<Rightarrow> error + 'a list" where
  "collect [] = Inr []"
| "collect (r # rs) =
     (case r of
        Inl e \<Rightarrow> Inl e
      | Inr v \<Rightarrow> (case collect rs of Inl e \<Rightarrow> Inl e | Inr vs \<Rightarrow> Inr (v # vs)))"

definition Array_from :: "int \<Rightarrow> (nat \<Rightarrow> error + 'a) \<Rightarrow> error + 'a list" where
  "Array_from len f = collect (map f [0..<nat len])"

text \<open>
  The return expression of \<^verbatim>\<open>createCurvePoints\<close>, for any evaluation function: the
  spec's \<^verbatim>\<open>sampleCurve\<close>.
\<close>

definition sampleCurve :: "(real \<Rightarrow> error + Cartesian3) \<Rightarrow> int \<Rightarrow> error + Cartesian3 list" where
  "sampleCurve evaluate_at numInterpolationPoints =
     Array_from numInterpolationPoints
       (\<lambda>i. evaluate_at (real i / real_of_int numInterpolationPoints))"

text \<open>
  The constructor call of \<^verbatim>\<open>createCurvePoints\<close>: the spec's \<^verbatim>\<open>fitCurve\<close>.
\<close>

definition fitCurve :: "Cartesian3 \<Rightarrow> Cartesian3 \<Rightarrow> Cartesian3 \<Rightarrow> error + CatmullRomSpline" where
  "fitCurve startPoint middlePoint endPoint =
     new_CatmullRomSpline [0, 1/2, 1] [startPoint, middlePoint, endPoint]"

definition createCurvePoints ::
  "Cartesian3 \<Rightarrow> Cartesian3 \<Rightarrow> Cartesian3 \<Rightarrow> int \<Rightarrow> error + Cartesian3 list" where
  "createCurvePoints startPoint middlePoint endPoint numInterpolationPoints =
     (case fitCurve startPoint middlePoint endPoint of
        Inl e \<Rightarrow> Inl e
      | Inr spline \<Rightarrow> sampleCurve (evaluate spline) numInterpolationPoints)"

text \<open>
  The two segments of the spline of \<^verbatim>\<open>fitCurve\<close>, and the point that
  \<^verbatim>\<open>evaluate\<close> computes on it at a time between the first and the last knot. They
  are derived from the definitions above (lemma \<open>evaluate_fitted\<close>) and serve to state
  results.
\<close>

definition firstSegment :: "Cartesian3 \<Rightarrow> Cartesian3 \<Rightarrow> Cartesian3 \<Rightarrow> real \<Rightarrow> Cartesian3" where
  "firstSegment a b c t =
     blend a b
       (multiplyByScalar (subtract (subtract (multiplyByScalar b 2) c) a) (1/2))
       (multiplyByScalar (subtract c a) (1/2))
       (hermiteCoefficients (t / (1/2)))"

definition lastSegment :: "Cartesian3 \<Rightarrow> Cartesian3 \<Rightarrow> Cartesian3 \<Rightarrow> real \<Rightarrow> Cartesian3" where
  "lastSegment a b c t =
     blend b c
       (multiplyByScalar (subtract c a) (1/2))
       (multiplyByScalar (add (subtract c (multiplyByScalar b 2)) a) (1/2))
       (hermiteCoefficients ((t - 1/2) / (1 - 1/2)))"

definition curvePoint :: "Cartesian3 \<Rightarrow> Cartesian3 \<Rightarrow> Cartesian3 \<Rightarrow> real \<Rightarrow> Cartesian3" where
  "curvePoint a b c t = (if t < 1/2 then firstSegment a b c t else lastSegment a b c t)"

subsection \<open>handleCurveLeftClick\<close>

text \<open>
  Modelled from the spec: \<^verbatim>\<open>helper.js\<close> (\<^verbatim>\<open>createPointEntity\<close>,
  \<^verbatim>\<open>createLineEntity\<close>, \<^verbatim>\<open>createDistanceLabel\<close>) is not under \<^verbatim>\<open>src/\<close>. An
  entity is modelled by the arguments it is created from; the position of a point entity is
  the picked position it was created at (spec, section 1: the three picked points are the
  control points), and only a point entity has one.
\<close>

datatype color = RED | YELLOW

datatype entity =
    PointEntity Cartesian3 color
  | LineEntity "Cartesian3 list" color
  | DistanceLabel Cartesian3 Cartesian3 real

definition createPointEntity :: "Cartesian3 \<Rightarrow> color \<Rightarrow> entity" where
  "createPointEntity cartesian c = PointEntity cartesian c"

definition createLineEntity :: "Cartesian3 list \<Rightarrow> color \<Rightarrow> entity" where
  "createLineEntity curvePoints c = LineEntity curvePoints c"

definition createDistanceLabel :: "Cartesian3 \<Rightarrow> Cartesian3 \<Rightarrow> real \<Rightarrow> entity" where
  "createDistanceLabel start end totalDistance = DistanceLabel start end totalDistance"

fun position_getValue :: "entity \<Rightarrow> error + Cartesian3" where
  "position_getValue (PointEntity cartesian c) = Inr cartesian"
| "position_getValue e = Inl UndefinedValue"

text \<open>
  The state the handler reads and writes: two fields of the viewer, the viewer's entity
  collection, and the three collections of the tool. The constructor leaves the tool's
  collections empty.
\<close>

record tool =
  selectedEntity :: "entity option"
  trackedEntity :: "entity option"
  viewer_entities :: "entity list"
  pointEntities :: "entity list"
  lineEntities :: "entity list"
  labelEntities :: "entity list"

definition constructor :: "entity option \<Rightarrow> entity option \<Rightarrow> entity list \<Rightarrow> tool" where
  "constructor sel tracked shown =
     \<lparr> selectedEntity = sel, trackedEntity = tracked, viewer_entities = shown,
       pointEntities = [], lineEntities = [], labelEntities = [] \<rparr>"

text \<open>\<^verbatim>\<open>Math.round\<close>: the nearest integer, a tie going up.\<close>

definition Math_round :: "real \<Rightarrow> int" where
  "Math_round v = \<lfloor>v + 1/2\<rfloor>"

text \<open>The constant \<^verbatim>\<open>numInterpolationPoints\<close> of the handler.\<close>

definition numInterpolationPoints :: "Cartesian3 \<Rightarrow> Cartesian3 \<Rightarrow> Cartesian3 \<Rightarrow> int" where
  "numInterpolationPoints start middle end =
     max (Math_round (distance start middle + distance middle end) * 50) 50"

text \<open>
  The handler of \<^verbatim>\<open>threePointsCurve.js\<close>, whose collections are arrays. The scene's
  \<^verbatim>\<open>pickPosition\<close> is a parameter; it answers \<open>None\<close> where the library answers
  \<^verbatim>\<open>undefined\<close>.
\<close>

definition handleCurveLeftClick ::
  "('pos \<Rightarrow> Cartesian3 option) \<Rightarrow> tool \<Rightarrow> 'pos \<Rightarrow> error + tool" where
  "handleCurveLeftClick pickPosition this movement_position =
     (let this1 = this\<lparr>selectedEntity := None, trackedEntity := None\<rparr>
      in case pickPosition movement_position of
           None \<Rightarrow> Inr this1
         | Some cartesian \<Rightarrow>
             (let pointEntity = createPointEntity cartesian RED;
                  this2 = this1\<lparr>viewer_entities := viewer_entities this1 @ [pointEntity],
                                pointEntities := pointEntities this1 @ [pointEntity]\<rparr>
              in if length (pointEntities this2) = 3
                 then (case collect (map position_getValue (pointEntities this2)) of
                         Inl e \<Rightarrow> Inl e
                       | Inr positions \<Rightarrow>
                           (let start = positions ! 0; middle = positions ! 1; end = positions ! 2;
                                n = numInterpolationPoints start middle end
                            in case createCurvePoints start middle end n of
                                 Inl e \<Rightarrow> Inl e
                               | Inr curvePoints \<Rightarrow>
                                   (let curveLineEntity = createLineEntity curvePoints YELLOW;
                                        totalDistance = measureCurveDistance curvePoints;
                                        labelEntity = createDistanceLabel start end totalDistance
                                    in Inr (this2\<lparr>viewer_entities :=
                                                    viewer_entities this2 @ [curveLineEntity, labelEntity],
                                                  lineEntities := lineEntities this2 @ [curveLineEntity],
                                                  labelEntities := labelEntities this2 @ [labelEntity],
                                                  pointEntities := []\<rparr>))))
                 else Inr this2))"

text \<open>
  The handler of \<^verbatim>\<open>ThreePointsCurve.js\<close>, whose collections are entity collections:
  it differs in the last step, which empties all three collections of the tool.
\<close>

definition handleCurveLeftClick_collections ::
  "('pos \<Rightarrow> Cartesian3 option) \<Rightarrow> tool \<Rightarrow> 'pos \<Rightarrow> error + tool" where
  "handleCurveLeftClick_collections pickPosition this movement_position =
     (let this1 = this\<lparr>selectedEntity := None, trackedEntity := None\<rparr>
      in case pickPosition movement_position of
           None \<Rightarrow> Inr this1
         | Some cartesian \<Rightarrow>
             (let pointEntity = createPointEntity cartesian RED;
                  this2 = this1\<lparr>viewer_entities := viewer_entities this1 @ [pointEntity],
                                pointEntities := pointEntities this1 @ [pointEntity]\<rparr>
              in if length (pointEntities this2) = 3
                 then (case collect (map position_getValue (pointEntities this2)) of
                         Inl e \<Rightarrow> Inl e
                       | Inr positions \<Rightarrow>
                           (let start = positions ! 0; middle = positions ! 1; end = positions ! 2;
                                n = numInterpolationPoints start middle end
                            in case createCurvePoints start middle end n of
                                 Inl e \<Rightarrow> Inl e
                               | Inr curvePoints \<Rightarrow>
                                   (let curveLineEntity = createLineEntity curvePoints YELLOW;
                                        totalDistance = measureCurveDistance curvePoints;
                                        labelEntity = createDistanceLabel start end totalDistance
                                    in Inr (this2\<lparr>viewer_entities :=
                                                    viewer_entities this2 @ [curveLineEntity, labelEntity],
                                                  pointEntities := [],
                                                  lineEntities := [],
                                                  labelEntities := []\<rparr>))))
                 else Inr this2))"

text \<open>
  A sequence of left clicks handled one after the other by \<open>handler\<close> (one of the two
  handlers above, with its \<open>pickPosition\<close>); the first error ends it.
\<close>

fun clicks :: "(tool \<Rightarrow> 'pos \<Rightarrow> error + tool) \<Rightarrow> tool \<Rightarrow> 'pos list \<Rightarrow> error + tool" where
  "clicks handler this [] = Inr this"
| "clicks handler this (m # ms) =
     (case handler this m of
        Inl e \<Rightarrow> Inl e
      | Inr this' \<Rightarrow> clicks handler this' ms)"

text \<open>
  Two notions to state what a sequence of clicks leaves behind: the positions picked by the
  clicks, in order, the misses left out; and what remains of a sequence of picked positions
  once its complete triples are taken away.
\<close>

definition picked :: "('pos \<Rightarrow> Cartesian3 option) \<Rightarrow> 'pos list \<Rightarrow> Cartesian3 list" where
  "picked pickPosition ms = List.map_filter pickPosition ms"

definition pending :: "Cartesian3 list \<Rightarrow> Cartesian3 list" where
  "pending cs = drop (length cs - length cs mod 3) cs"

section \<open>The same functions in double arithmetic\<close>

subsection \<open>Rounding to a double\<close>

text \<open>
  A JavaScript number is an IEEE double: a sign, 53 significant bits and an exponent. Every
  arithmetic operation and \<^verbatim>\<open>Math.sqrt\<close> return the double nearest to the exact
  result, a tie going to the double whose last significant bit is 0. \<open>fl v\<close> is that
  double: \<open>v\<close> is scaled by a power of two so that its magnitude lies between \<open>2\<^sup>5\<^sup>2\<close> and
  \<open>2\<^sup>5\<^sup>3\<close>, rounded to an integer, and scaled back. The range of the exponent is not limited
  here: infinities, NaN and the subnormal numbers below \<open>2\<^sup>-\<^sup>1\<^sup>0\<^sup>2\<^sup>2\<close> are outside the model, and
  zero has no sign.
\<close>

definition roundTiesToEven :: "real \<Rightarrow> int" where
  "roundTiesToEven m =
     (let f = \<lfloor>m\<rfloor>
      in if m - of_int f < 1/2 then f
         else if 1/2 < m - of_int f then f + 1
         else if even f then f else f + 1)"

definition double_exponent :: "real \<Rightarrow> int" where
  "double_exponent v = \<lfloor>log 2 \<bar>v\<bar>\<rfloor> - 52"

definition fl :: "real \<Rightarrow> real" where
  "fl v =
     (if v = 0 then 0
      else of_int (roundTiesToEven (v / 2 powr of_int (double_exponent v)))
             * 2 powr of_int (double_exponent v))"

subsection \<open>The functions with every result rounded\<close>

text \<open>
  The definitions of the first section once more, with the operations in the order in which
  the scripts and the library perform them and the result of every operation passed through
  \<open>rnd\<close>. With \<open>fl\<close> for \<open>rnd\<close> they compute what the program computes in doubles, as
  long as no intermediate result overflows or underflows; with the identity they are the
  definitions of the first section (lemmas \<open>createCurvePoints_r_id\<close> and
  \<open>measureCurveDistance_r_id\<close>).

  Modelled from the spec: as in the first section, the operations of \<^verbatim>\<open>Cartesian3\<close> and
  the spline are code of the Cesium library, which is not under \<^verbatim>\<open>src/\<close>. The spec fixes
  the curve (section 4.1) but not the order of the floating-point operations; the order below
  is the library's: \<^verbatim>\<open>magnitudeSquared\<close> adds \<^verbatim>\<open>x * x + y * y + z * z\<close> from left to
  right, and the spline blends \<^verbatim>\<open>p0 * c0 + p1 * c1 + p2 * c2 + p3 * c3\<close> with
  \<^verbatim>\<open>multiplyByScalar\<close> and \<^verbatim>\<open>add\<close>, at the local parameter
  \<^verbatim>\<open>(time - times[i]) / (times[i + 1] - times[i])\<close>.
\<close>

definition subtract_r :: "(real \<Rightarrow> real) \<Rightarrow> Cartesian3 \<Rightarrow> Cartesian3 \<Rightarrow> Cartesian3" where
  "subtract_r rnd left right =
     Cartesian3 (rnd (cx left - cx right)) (rnd (cy left - cy right)) (rnd (cz left - cz right))"

definition add_r :: "(real \<Rightarrow> real) \<Rightarrow> Cartesian3 \<Rightarrow> Cartesian3 \<Rightarrow> Cartesian3" where
  "add_r rnd left right =
     Cartesian3 (rnd (cx left + cx right)) (rnd (cy left + cy right)) (rnd (cz left + cz right))"

definition multiplyByScalar_r :: "(real \<Rightarrow> real) \<Rightarrow> Cartesian3 \<Rightarrow> real \<Rightarrow> Cartesian3" where
  "multiplyByScalar_r rnd c s = Cartesian3 (rnd (cx c * s)) (rnd (cy c * s)) (rnd (cz c * s))"

definition magnitudeSquared_r :: "(real \<Rightarrow> real) \<Rightarrow> Cartesian3 \<Rightarrow> real" where
  "magnitudeSquared_r rnd c = rnd (rnd (rnd (cx c * cx c) + rnd (cy c * cy c)) + rnd (cz c * cz c))"

definition magnitude_r :: "(real \<Rightarrow> real) \<Rightarrow> Cartesian3 \<Rightarrow> real" where
  "magnitude_r rnd c = rnd (sqrt (magnitudeSquared_r rnd c))"

definition distance_r :: "(real \<Rightarrow> real) \<Rightarrow> Cartesian3 \<Rightarrow> Cartesian3 \<Rightarrow> real" where
  "distance_r rnd left right = magnitude_r rnd (subtract_r rnd left right)"

text \<open>The reduce of \<^verbatim>\<open>measureCurveDistance\<close>: \<^verbatim>\<open>acc + distance(...)\<close> is one rounded addition.\<close>

definition measureCurveDistance_r :: "(real \<Rightarrow> real) \<Rightarrow> Cartesian3 list \<Rightarrow> real" where
  "measureCurveDistance_r rnd curvePoints =
     fold (\<lambda>i acc. if i > 0
                     then rnd (acc + distance_r rnd (curvePoints ! (i - 1)) (curvePoints ! i))
                     else acc)
          [0..<length curvePoints] 0"

definition new_CatmullRomSpline_r ::
  "(real \<Rightarrow> real) \<Rightarrow> real list \<Rightarrow> Cartesian3 list \<Rightarrow> error + CatmullRomSpline" where
  "new_CatmullRomSpline_r rnd ts ps =
     (if length ps < 2 then Inl PointsTooFew
      else if length ts \<noteq> length ps then Inl TimesLengthMismatch
      else Inr \<lparr> spline_times = ts, spline_points = ps,
                 firstTangent =
                   (if length ps > 2
                    then Some (multiplyByScalar_r rnd
                                 (subtract_r rnd
                                    (subtract_r rnd (multiplyByScalar_r rnd (ps ! 1) 2) (ps ! 2))
                                    (ps ! 0))
                                 (1/2))
                    else None),
                 lastTangent =
                   (if length ps > 2
                    then (let n = length ps - 1
                          in Some (multiplyByScalar_r rnd
                                     (add_r rnd
                                        (subtract_r rnd (ps ! n)
                                           (multiplyByScalar_r rnd (ps ! (n - 1)) 2))
                                        (ps ! (n - 2)))
                                     (1/2)))
                    else None) \<rparr>)"

text \<open>
  \<^verbatim>\<open>Matrix4.multiplyByVector\<close> computes each coefficient as
  \<^verbatim>\<open>m0 * vX + m4 * vY + m8 * vZ + m12 * vW\<close> (one row of the matrix, here
  \<open>(m0, m1, m2, m3)\<close>), from left to right, on the vector
  \<^verbatim>\<open>(u * u * u, u * u, u, 1)\<close> that \<^verbatim>\<open>evaluate\<close> fills in as \<open>y = u * u\<close>,
  \<open>x = y * u\<close>. The rows are those of the Hermite and of the Catmull-Rom coefficient matrix.
\<close>

definition multiplyByVector_row ::
  "(real \<Rightarrow> real) \<Rightarrow> real \<times> real \<times> real \<times> real \<Rightarrow> real \<times> real \<times> real \<times> real \<Rightarrow> real" where
  "multiplyByVector_row rnd row v =
     (case row of (m0, m1, m2, m3) \<Rightarrow> case v of (vX, vY, vZ, vW) \<Rightarrow>
        rnd (rnd (rnd (rnd (m0 * vX) + rnd (m1 * vY)) + rnd (m2 * vZ)) + rnd (m3 * vW)))"

definition timeVec :: "(real \<Rightarrow> real) \<Rightarrow> real \<Rightarrow> real \<times> real \<times> real \<times> real" where
  "timeVec rnd u = (let y = rnd (u * u) in (rnd (y * u), y, u, 1))"

definition hermiteCoefficients_r :: "(real \<Rightarrow> real) \<Rightarrow> real \<Rightarrow> real \<times> real \<times> real \<times> real" where
  "hermiteCoefficients_r rnd u =
     (let v = timeVec rnd u
      in (multiplyByVector_row rnd (2, - 3, 0, 1) v,
          multiplyByVector_row rnd (- 2, 3, 0, 0) v,
          multiplyByVector_row rnd (1, - 2, 1, 0) v,
          multiplyByVector_row rnd (1, - 1, 0, 0) v))"

definition catmullRomCoefficients_r :: "(real \<Rightarrow> real) \<Rightarrow> real \<Rightarrow> real \<times> real \<times> real \<times> real" where
  "catmullRomCoefficients_r rnd u =
     (let v = timeVec rnd u
      in (multiplyByVector_row rnd (- (1/2), 1, - (1/2), 0) v,
          multiplyByVector_row rnd (3/2, - (5/2), 0, 1) v,
          multiplyByVector_row rnd (- (3/2), 2, 1/2, 0) v,
          multiplyByVector_row rnd (1/2, - (1/2), 0, 0) v))"

definition blend_r ::
  "(real \<Rightarrow> real) \<Rightarrow> Cartesian3 \<Rightarrow> Cartesian3 \<Rightarrow> Cartesian3 \<Rightarrow> Cartesian3
     \<Rightarrow> real \<times> real \<times> real \<times> real \<Rightarrow> Cartesian3" where
  "blend_r rnd p0 p1 p2 p3 coefs =
     (case coefs of (c0, c1, c2, c3) \<Rightarrow>
        add_r rnd
          (add_r rnd
             (add_r rnd (multiplyByScalar_r rnd p0 c0) (multiplyByScalar_r rnd p1 c1))
             (multiplyByScalar_r rnd p2 c2))
          (multiplyByScalar_r rnd p3 c3))"

definition lerp_r :: "(real \<Rightarrow> real) \<Rightarrow> Cartesian3 \<Rightarrow> Cartesian3 \<Rightarrow> real \<Rightarrow> Cartesian3" where
  "lerp_r rnd start end t =
     add_r rnd (multiplyByScalar_r rnd end t) (multiplyByScalar_r rnd start (rnd (1 - t)))"

definition evaluate_r :: "(real \<Rightarrow> real) \<Rightarrow> CatmullRomSpline \<Rightarrow> real \<Rightarrow> error + Cartesian3" where
  "evaluate_r rnd spline time =
     (let ts = spline_times spline; ps = spline_points spline
      in if time < ts ! 0 \<or> time > ts ! (length ts - 1) then Inl TimeOutOfRange
         else if length ps < 3
         then Inr (lerp_r rnd (ps ! 0) (ps ! 1)
                     (rnd (rnd (time - ts ! 0) * rnd (1 / rnd (ts ! 1 - ts ! 0)))))
         else
           (let i = findTimeInterval ts time;
                u = rnd (rnd (time - ts ! i) / rnd (ts ! (i + 1) - ts ! i))
            in if i = 0
               then (case firstTangent spline of
                       None \<Rightarrow> Inl UndefinedValue
                     | Some ft \<Rightarrow>
                         Inr (blend_r rnd (ps ! 0) (ps ! 1) ft
                                (multiplyByScalar_r rnd (subtract_r rnd (ps ! 2) (ps ! 0)) (1/2))
                                (hermiteCoefficients_r rnd u)))
               else if i = length ps - 2
               then (case lastTangent spline of
                       None \<Rightarrow> Inl UndefinedValue
                     | Some lt \<Rightarrow>
                         Inr (blend_r rnd (ps ! i) (ps ! (i + 1))
                                (multiplyByScalar_r rnd
                                   (subtract_r rnd (ps ! (i + 1)) (ps ! (i - 1))) (1/2))
                                lt
                                (hermiteCoefficients_r rnd u)))
               else Inr (blend_r rnd (ps ! (i - 1)) (ps ! i) (ps ! (i + 1)) (ps ! (i + 2))
                           (catmullRomCoefficients_r rnd u))))"

text \<open>
  \<^verbatim>\<open>createCurvePoints\<close>: the knots 0, 0.5 and 1 are doubles, and \<^verbatim>\<open>i / n\<close> is one
  rounded division.
\<close>

definition createCurvePoints_r ::
  "(real \<Rightarrow> real) \<Rightarrow> Cartesian3 \<Rightarrow> Cartesian3 \<Rightarrow> Cartesian3 \<Rightarrow> int \<Rightarrow> error + Cartesian3 list" where
  "createCurvePoints_r rnd startPoint middlePoint endPoint numPoints =
     (case new_CatmullRomSpline_r rnd [0, 1/2, 1] [startPoint, middlePoint, endPoint] of
        Inl e \<Rightarrow> Inl e
      | Inr spline \<Rightarrow>
          Array_from numPoints
            (\<lambda>i. evaluate_r rnd spline (rnd (real i / real_of_int numPoints))))"

text \<open>
  As in the first section: the point that \<open>evaluate_r\<close> computes on the three-knot spline,
  the list of samples, and the chord lengths that \<open>measureCurveDistance_r\<close> adds up. They
  are derived from the definitions above (lemmas \<open>evaluate_r_three\<close>,
  \<open>createCurvePoints_r_samples\<close> and \<open>measureCurveDistance_r_chords\<close>) and serve to state
  results.
\<close>

definition curvePoint_r :: "(real \<Rightarrow> real) \<Rightarrow> Cartesian3 \<Rightarrow> Cartesian3 \<Rightarrow> Cartesian3 \<Rightarrow> real \<Rightarrow> Cartesian3" where
  "curvePoint_r rnd a b c t =
     (if t < 1/2
      then blend_r rnd a b
             (multiplyByScalar_r rnd
                (subtract_r rnd (subtract_r rnd (multiplyByScalar_r rnd b 2) c) a) (1/2))
             (multiplyByScalar_r rnd (subtract_r rnd c a) (1/2))
             (hermiteCoefficients_r rnd (rnd (rnd (t - 0) / rnd (1/2 - 0))))
      else blend_r rnd b c
             (multiplyByScalar_r rnd (subtract_r rnd c a) (1/2))
             (multiplyByScalar_r rnd
                (add_r rnd (subtract_r rnd c (multiplyByScalar_r rnd b 2)) a) (1/2))
             (hermiteCoefficients_r rnd (rnd (rnd (t - 1/2) / rnd (1 - 1/2)))))"

definition samples_r ::
  "(real \<Rightarrow> real) \<Rightarrow> Cartesian3 \<Rightarrow> Cartesian3 \<Rightarrow> Cartesian3 \<Rightarrow> int \<Rightarrow> Cartesian3 list" where
  "samples_r rnd a b c n =
     map (\<lambda>i. curvePoint_r rnd a b c (rnd (real i / real_of_int n))) [0..<nat n]"

fun chords_r :: "(real \<Rightarrow> real) \<Rightarrow> Cartesian3 list \<Rightarrow> real list" where
  "chords_r rnd (p # q # ps) = distance_r rnd p q # chords_r rnd (q # ps)"
| "chords_r rnd ps = []"

section \<open>Properties\<close>

subsection \<open>Distances\<close>

lemma distance_nonneg: "0 \<le> distance p q"
  by (simp add: distance_def magnitude_def magnitudeSquared_def)

lemma distance_commute: "distance p q = distance q p"
proof -
  have "magnitudeSquared (subtract p q) = magnitudeSquared (subtract q p)"
    by (simp add: magnitudeSquared_def subtract_def algebra_simps)
  then show ?thesis by (simp add: distance_def magnitude_def)
qed

lemma distance_self: "distance p p = 0"
  by (simp add: distance_def magnitude_def magnitudeSquared_def subtract_def)

subsection \<open>The reduce as a sum\<close>

lemma reduce_upto_sum:
  "fold (\<lambda>i acc. if i > 0 then acc + d i else acc) [0..<n] (a::real) = a + (\<Sum>i = 1..<n. d i)"
proof (induction n)
  case 0
  show ?case by simp
next
  case (Suc n)
  show ?case
  proof (cases "n = 0")
    case True
    then show ?thesis by simp
  next
    case False
    then have "(\<Sum>i = 1..<Suc n. d i) = (\<Sum>i = 1..<n. d i) + d n"
      by (simp add: sum.atLeastLessThan_Suc)
    with Suc False show ?thesis by simp
  qed
qed

lemma measureCurveDistance_sum:
  "measureCurveDistance ps = (\<Sum>i = 1..<length ps. distance (ps ! (i - 1)) (ps ! i))"
  unfolding measureCurveDistance_def by (simp add: reduce_upto_sum)

lemma sum_shift_Cons:
  "(\<Sum>i = 1..<Suc (Suc n). d (i - 1) i) = d 0 1 + (\<Sum>i = 1..<Suc n. d i (Suc i) :: real)"
proof -
  have "(\<Sum>i = 1..<Suc (Suc n). d (i - 1) i) = (\<Sum>i = 0..<Suc n. d i (Suc i))"
    by (rule sum.reindex_bij_witness [where i = Suc and j = "\<lambda>i. i - 1"]) auto
  also have "\<dots> = d 0 1 + (\<Sum>i = 1..<Suc n. d i (Suc i))"
    by (simp add: sum.atLeast_Suc_lessThan)
  finally show ?thesis .
qed

lemma measureCurveDistance_pathLength: "measureCurveDistance ps = pathLength ps"
proof (induction ps rule: pathLength.induct)
  case 1
  show ?case by (simp add: measureCurveDistance_sum)
next
  case (2 p)
  show ?case by (simp add: measureCurveDistance_sum)
next
  case (3 p q ps)
  have "measureCurveDistance (p # q # ps)
      = (\<Sum>i = 1..<Suc (Suc (length ps)). distance ((p # q # ps) ! (i - 1)) ((p # q # ps) ! i))"
    by (simp add: measureCurveDistance_sum)
  also have "\<dots> = distance p q
      + (\<Sum>i = 1..<Suc (length ps). distance ((p # q # ps) ! i) ((p # q # ps) ! Suc i))"
    using sum_shift_Cons [of "\<lambda>i j. distance ((p # q # ps) ! i) ((p # q # ps) ! j)" "length ps"]
    by simp
  also have "(\<Sum>i = 1..<Suc (length ps). distance ((p # q # ps) ! i) ((p # q # ps) ! Suc i))
      = (\<Sum>i = 1..<Suc (length ps). distance ((q # ps) ! (i - 1)) ((q # ps) ! i))"
    by (rule sum.cong) (auto simp: nth_Cons')
  also have "\<dots> = measureCurveDistance (q # ps)"
    by (simp add: measureCurveDistance_sum)
  finally show ?case using 3 by simp
qed

lemma pathLength_nonneg: "0 \<le> pathLength ps"
  by (induction ps rule: pathLength.induct) (simp_all add: distance_nonneg)

lemma sqrt3_triangle:
  "sqrt ((a1 + b1)\<^sup>2 + (a2 + b2)\<^sup>2 + (a3 + b3)\<^sup>2)
     \<le> sqrt (a1\<^sup>2 + a2\<^sup>2 + a3\<^sup>2) + sqrt (b1\<^sup>2 + b2\<^sup>2 + b3\<^sup>2)"
proof -
  define A where "A = sqrt (a1\<^sup>2 + a2\<^sup>2)"
  define B where "B = sqrt (b1\<^sup>2 + b2\<^sup>2)"
  have A0: "0 \<le> A" and B0: "0 \<le> B" by (simp_all add: A_def B_def)
  have A2: "A\<^sup>2 = a1\<^sup>2 + a2\<^sup>2" and B2: "B\<^sup>2 = b1\<^sup>2 + b2\<^sup>2"
    by (simp_all add: A_def B_def)
  have "sqrt ((a1 + b1)\<^sup>2 + (a2 + b2)\<^sup>2) \<le> A + B"
    unfolding A_def B_def by (rule real_sqrt_sum_squares_triangle_ineq)
  then have "(sqrt ((a1 + b1)\<^sup>2 + (a2 + b2)\<^sup>2))\<^sup>2 \<le> (A + B)\<^sup>2"
    by (rule power_mono) simp
  then have "(a1 + b1)\<^sup>2 + (a2 + b2)\<^sup>2 \<le> (A + B)\<^sup>2" by simp
  then have "sqrt ((a1 + b1)\<^sup>2 + (a2 + b2)\<^sup>2 + (a3 + b3)\<^sup>2) \<le> sqrt ((A + B)\<^sup>2 + (a3 + b3)\<^sup>2)"
    by simp
  also have "\<dots> \<le> sqrt (A\<^sup>2 + a3\<^sup>2) + sqrt (B\<^sup>2 + b3\<^sup>2)"
    by (rule real_sqrt_sum_squares_triangle_ineq)
  finally show ?thesis by (simp add: A2 B2)
qed

lemma distance_triangle: "distance p r \<le> distance p q + distance q r"
proof -
  have "sqrt ((cx p - cx q + (cx q - cx r))\<^sup>2 + (cy p - cy q + (cy q - cy r))\<^sup>2
              + (cz p - cz q + (cz q - cz r))\<^sup>2)
        \<le> sqrt ((cx p - cx q)\<^sup>2 + (cy p - cy q)\<^sup>2 + (cz p - cz q)\<^sup>2)
          + sqrt ((cx q - cx r)\<^sup>2 + (cy q - cy r)\<^sup>2 + (cz q - cz r)\<^sup>2)"
    by (rule sqrt3_triangle)
  then show ?thesis
    by (simp add: distance_def magnitude_def magnitudeSquared_def subtract_def power2_eq_square)
qed

lemma pathLength_snoc:
  "pathLength (ps @ [q]) = pathLength ps + (if ps = [] then 0 else distance (last ps) q)"
  by (induction ps rule: pathLength.induct) simp_all

lemma pathLength_rev: "pathLength (rev ps) = pathLength ps"
proof (induction ps rule: pathLength.induct)
  case (3 p q ps)
  have "pathLength (rev (p # q # ps)) = pathLength (rev (q # ps) @ [p])" by simp
  also have "\<dots> = pathLength (rev (q # ps)) + distance (last (rev (q # ps))) p"
    by (subst pathLength_snoc) simp
  also have "\<dots> = pathLength (q # ps) + distance q p"
    using 3 by simp
  finally show ?case by (simp add: distance_commute)
qed simp_all

subsection \<open>The arc-length accumulator\<close>

text \<open>
  Claim C1. For every list of points, \<open>measureCurveDistance\<close> is the sum, over
  \<open>i = 1, ..., n - 1\<close>, of the Euclidean distance between \<open>points[i - 1]\<close> and
  \<open>points[i]\<close>; it is 0 for a list of at most one point; and it is never negative.
\<close>

theorem measureCurveDistance_is_sum:
  "measureCurveDistance points
     = (\<Sum>i = 1..<length points. distance (points ! (i - 1)) (points ! i))
   \<and> (length points \<le> 1 \<longrightarrow> measureCurveDistance points = 0)
   \<and> 0 \<le> measureCurveDistance points"
proof (intro conjI impI)
  show "measureCurveDistance points
     = (\<Sum>i = 1..<length points. distance (points ! (i - 1)) (points ! i))"
    by (rule measureCurveDistance_sum)
  show "measureCurveDistance points = 0" if "length points \<le> 1"
    using that by (simp add: measureCurveDistance_sum)
  show "0 \<le> measureCurveDistance points"
    by (simp add: measureCurveDistance_pathLength pathLength_nonneg)
qed

theorem measureCurveDistance_is_sum_witness:
  "length [Cartesian3 1 2 3] \<le> 1 \<and> measureCurveDistance [Cartesian3 1 2 3] = 0
   \<and> measureCurveDistance [Cartesian3 0 0 0, Cartesian3 3 4 0, Cartesian3 3 4 2] = 7"
proof -
  have "distance (Cartesian3 0 0 0) (Cartesian3 3 4 0) = sqrt (5\<^sup>2)"
    by (simp add: distance_def magnitude_def magnitudeSquared_def subtract_def)
  then have d1: "distance (Cartesian3 0 0 0) (Cartesian3 3 4 0) = 5"
    by simp
  have "distance (Cartesian3 3 4 0) (Cartesian3 3 4 2) = sqrt (2\<^sup>2)"
    by (simp add: distance_def magnitude_def magnitudeSquared_def subtract_def)
  then have d2: "distance (Cartesian3 3 4 0) (Cartesian3 3 4 2) = 2"
    by simp
  have s: "{1..<3::nat} = {1, 2}" by auto
  show ?thesis
    using measureCurveDistance_is_sum [of "[Cartesian3 1 2 3]"]
      measureCurveDistance_is_sum [of "[Cartesian3 0 0 0, Cartesian3 3 4 0, Cartesian3 3 4 2]"]
    by (simp add: s d1 d2)
qed

subsection \<open>The fitted spline\<close>

lemma fitCurve_Inr:
  "fitCurve a b c =
     Inr \<lparr> spline_times = [0, 1/2, 1], spline_points = [a, b, c],
           firstTangent =
             Some (multiplyByScalar (subtract (subtract (multiplyByScalar b 2) c) a) (1/2)),
           lastTangent =
             Some (multiplyByScalar (add (subtract c (multiplyByScalar b 2)) a) (1/2)) \<rparr>"
  by (simp add: fitCurve_def new_CatmullRomSpline_def)

lemma evaluate_fitted:
  assumes "fitCurve a b c = Inr spline"
  shows "evaluate spline t = (if t < 0 \<or> 1 < t then Inl TimeOutOfRange else Inr (curvePoint a b c t))"
proof -
  have s: "spline = \<lparr> spline_times = [0, 1/2, 1], spline_points = [a, b, c],
           firstTangent =
             Some (multiplyByScalar (subtract (subtract (multiplyByScalar b 2) c) a) (1/2)),
           lastTangent =
             Some (multiplyByScalar (add (subtract c (multiplyByScalar b 2)) a) (1/2)) \<rparr>"
    using assms by (simp add: fitCurve_Inr)
  show ?thesis
    by (simp add: s evaluate_def curvePoint_def firstSegment_def lastSegment_def Let_def)
qed

lemma curvePoint_0: "curvePoint a b c 0 = a"
  by (cases a; cases b; cases c)
     (simp add: curvePoint_def firstSegment_def blend_def hermiteCoefficients_def add_def
        multiplyByScalar_def subtract_def)

lemma curvePoint_half: "curvePoint a b c (1/2) = b"
  by (cases a; cases b; cases c)
     (simp add: curvePoint_def lastSegment_def blend_def hermiteCoefficients_def add_def
        multiplyByScalar_def subtract_def)

lemma curvePoint_1: "curvePoint a b c 1 = c"
  by (cases a; cases b; cases c)
     (simp add: curvePoint_def lastSegment_def blend_def hermiteCoefficients_def add_def
        multiplyByScalar_def subtract_def)

lemma curvePoint_coincident: "curvePoint a a a t = a"
  by (cases a)
     (simp add: curvePoint_def firstSegment_def lastSegment_def blend_def
        hermiteCoefficients_def add_def multiplyByScalar_def subtract_def algebra_simps)

lemma isCont_lastSegment:
  "isCont (\<lambda>t. cx (lastSegment a b c t)) s"
  "isCont (\<lambda>t. cy (lastSegment a b c t)) s"
  "isCont (\<lambda>t. cz (lastSegment a b c t)) s"
  by (simp_all add: lastSegment_def blend_def hermiteCoefficients_def add_def
        multiplyByScalar_def subtract_def)

lemma isCont_lastSegment_distance: "isCont (\<lambda>t. distance (lastSegment a b c t) c) s"
proof -
  have "isCont (\<lambda>t. sqrt ((cx (lastSegment a b c t) - cx c) * (cx (lastSegment a b c t) - cx c)
                         + (cy (lastSegment a b c t) - cy c) * (cy (lastSegment a b c t) - cy c)
                         + (cz (lastSegment a b c t) - cz c) * (cz (lastSegment a b c t) - cz c))) s"
    by (intro continuous_real_sqrt continuous_add continuous_mult continuous_diff
          isCont_lastSegment continuous_const)
  then show ?thesis
    by (simp add: distance_def magnitude_def magnitudeSquared_def subtract_def)
qed

lemma curvePoint_approaches_end:
  assumes "0 < e"
  shows "\<exists>d>0. \<forall>t. 1 - d < t \<and> t < 1 \<longrightarrow> distance (curvePoint a b c t) c < e"
proof -
  let ?g = "\<lambda>t. distance (lastSegment a b c t) c"
  have "?g \<midarrow>1\<rightarrow> ?g 1"
    using isCont_lastSegment_distance [where s = 1 and a = a and b = b and c = c]
    by (simp add: isCont_def)
  then obtain s where s: "0 < s" "\<And>t. t \<noteq> 1 \<Longrightarrow> \<bar>t - 1\<bar> < s \<Longrightarrow> \<bar>?g t - ?g 1\<bar> < e"
    using assms unfolding LIM_eq by (auto simp: real_norm_def)
  have "lastSegment a b c 1 = curvePoint a b c 1"
    by (simp add: curvePoint_def)
  then have g1: "?g 1 = 0"
    by (simp add: curvePoint_1 distance_self)
  define d where "d = min s (1/2)"
  have "0 < d" using s(1) by (simp add: d_def)
  moreover have "distance (curvePoint a b c t) c < e" if "1 - d < t" "t < 1" for t
  proof -
    have "1/2 \<le> t" using that by (simp add: d_def)
    moreover have "\<bar>t - 1\<bar> < s" using that by (simp add: d_def)
    ultimately show ?thesis
      using s(2) [of t] that g1 by (simp add: curvePoint_def)
  qed
  ultimately show ?thesis by blast
qed

subsection \<open>Sampling\<close>

lemma collect_map_Inr:
  "(\<And>v. v \<in> set vs \<Longrightarrow> f v = Inr (g v)) \<Longrightarrow> collect (map f vs) = Inr (map g vs)"
  by (induction vs) simp_all

lemma sample_time_range:
  assumes "1 \<le> n" "i < nat n"
  shows "0 \<le> real i / real_of_int n" "real i / real_of_int n < 1"
  using assms by simp_all

lemma sampleCurve_Inr:
  assumes "\<And>t. 0 \<le> t \<Longrightarrow> t < 1 \<Longrightarrow> ev t = Inr (curve t)"
  shows "sampleCurve ev n = Inr (map (\<lambda>i. curve (real i / real_of_int n)) [0..<nat n])"
proof (cases "1 \<le> n")
  case True
  have "collect (map (\<lambda>i. ev (real i / real_of_int n)) [0..<nat n])
      = Inr (map (\<lambda>i. curve (real i / real_of_int n)) [0..<nat n])"
  proof (rule collect_map_Inr)
    fix i assume "i \<in> set [0..<nat n]"
    then have "i < nat n" by simp
    with True show "ev (real i / real_of_int n) = Inr (curve (real i / real_of_int n))"
      by (intro assms sample_time_range)
  qed
  then show ?thesis by (simp add: sampleCurve_def Array_from_def)
next
  case False
  then have "nat n = 0" by simp
  then show ?thesis by (simp add: sampleCurve_def Array_from_def)
qed

lemma createCurvePoints_Inr:
  "createCurvePoints a b c n
     = Inr (map (\<lambda>i. curvePoint a b c (real i / real_of_int n)) [0..<nat n])"
proof -
  obtain spline where s: "fitCurve a b c = Inr spline"
    by (simp add: fitCurve_Inr)
  have "sampleCurve (evaluate spline) n
      = Inr (map (\<lambda>i. curvePoint a b c (real i / real_of_int n)) [0..<nat n])"
    by (rule sampleCurve_Inr) (simp add: evaluate_fitted [OF s])
  with s show ?thesis by (simp add: createCurvePoints_def)
qed

lemma measureCurveDistance_replicate: "measureCurveDistance (replicate k p) = 0"
proof -
  have "distance (replicate k p ! (i - 1)) (replicate k p ! i) = 0" if "i \<in> {1..<k}" for i
  proof -
    from that have "i - 1 < k" "i < k" by auto
    then show ?thesis by (simp only: nth_replicate distance_self)
  qed
  then have "(\<Sum>i = 1..<k. distance (replicate k p ! (i - 1)) (replicate k p ! i)) = 0"
    by (intro sum.neutral ballI)
  then show ?thesis
    by (simp add: measureCurveDistance_sum)
qed

subsection \<open>The curve sampler\<close>

text \<open>
  Claim C2. For every curve and every integer \<open>n \<ge> 1\<close>, sampling returns exactly \<open>n\<close>
  points, the values of the curve at \<open>i / n\<close> for \<open>i = 0, ..., n - 1\<close>. The curve is never
  evaluated at 1: the evaluation function \<open>ev\<close> is only required to agree with \<open>curve\<close>
  on times \<open>0 \<le> t < 1\<close>, and all sample times lie there. The last conjunct is the same
  statement for \<open>createCurvePoints\<close> and the spline it builds.
\<close>

theorem sampleCurve_points:
  assumes "1 \<le> n" and "\<forall>t. 0 \<le> t \<and> t < 1 \<longrightarrow> ev t = Inr (curve t)"
  shows "sampleCurve ev n = Inr (map (\<lambda>i. curve (real i / real_of_int n)) [0..<nat n])
       \<and> length (map (\<lambda>i. curve (real i / real_of_int n)) [0..<nat n]) = nat n
       \<and> (\<forall>i<nat n. 0 \<le> real i / real_of_int n \<and> real i / real_of_int n < 1)
       \<and> (\<exists>spline ps. fitCurve a b c = Inr spline
              \<and> createCurvePoints a b c n = sampleCurve (evaluate spline) n
              \<and> createCurvePoints a b c n = Inr ps \<and> length ps = nat n
              \<and> (\<forall>i<nat n. evaluate spline (real i / real_of_int n) = Inr (ps ! i)))"
proof (intro conjI)
  show "sampleCurve ev n = Inr (map (\<lambda>i. curve (real i / real_of_int n)) [0..<nat n])"
    using assms(2) by (intro sampleCurve_Inr) simp
  show "length (map (\<lambda>i. curve (real i / real_of_int n)) [0..<nat n]) = nat n"
    by simp
  show "\<forall>i<nat n. 0 \<le> real i / real_of_int n \<and> real i / real_of_int n < 1"
    using sample_time_range [OF assms(1)] by blast
  obtain spline where s: "fitCurve a b c = Inr spline"
    by (simp add: fitCurve_Inr)
  let ?ps = "map (\<lambda>i. curvePoint a b c (real i / real_of_int n)) [0..<nat n]"
  have "createCurvePoints a b c n = sampleCurve (evaluate spline) n"
    using s by (simp add: createCurvePoints_def)
  moreover have "createCurvePoints a b c n = Inr ?ps"
    by (rule createCurvePoints_Inr)
  moreover have "length ?ps = nat n" by simp
  moreover have "\<forall>i<nat n. evaluate spline (real i / real_of_int n) = Inr (?ps ! i)"
  proof (intro allI impI)
    fix i assume i: "i < nat n"
    have "0 \<le> real i / real_of_int n" "real i / real_of_int n < 1"
      by (rule sample_time_range [OF assms(1) i])+
    then have "evaluate spline (real i / real_of_int n)
        = Inr (curvePoint a b c (real i / real_of_int n))"
      by (simp only: evaluate_fitted [OF s]) simp
    with i show "evaluate spline (real i / real_of_int n) = Inr (?ps ! i)"
      by simp
  qed
  ultimately show "\<exists>spline ps. fitCurve a b c = Inr spline
              \<and> createCurvePoints a b c n = sampleCurve (evaluate spline) n
              \<and> createCurvePoints a b c n = Inr ps \<and> length ps = nat n
              \<and> (\<forall>i<nat n. evaluate spline (real i / real_of_int n) = Inr (ps ! i))"
    using s by blast
qed

theorem sampleCurve_points_witness:
  "(1::int) \<le> 2
   \<and> sampleCurve (\<lambda>t. if t < 1 then Inr (Cartesian3 t (2 * t) 0) else Inl TimeOutOfRange) 2
       = Inr [Cartesian3 0 0 0, Cartesian3 (1/2) 1 0]
   \<and> (\<exists>ps. createCurvePoints (Cartesian3 0 0 0) (Cartesian3 1 1 0) (Cartesian3 2 0 0) 2 = Inr ps
          \<and> length ps = 2)"
proof -
  have h: "\<forall>t. 0 \<le> t \<and> t < 1 \<longrightarrow>
             (if t < 1 then Inr (Cartesian3 t (2 * t) 0) else Inl TimeOutOfRange)
               = Inr (Cartesian3 t (2 * t) 0)"
    by simp
  have u: "[0..<2] = [0, 1::nat]"
    by (simp add: upt_rec)
  show ?thesis
    using sampleCurve_points [of 2 "\<lambda>t. if t < 1 then Inr (Cartesian3 t (2 * t) 0) else Inl TimeOutOfRange"
        "\<lambda>t. Cartesian3 t (2 * t) 0" "Cartesian3 0 0 0" "Cartesian3 1 1 0" "Cartesian3 2 0 0", OF _ h]
    by (auto simp: u)
qed

subsection \<open>The curve fitter\<close>

text \<open>
  Claim C4. For every three points \<open>a\<close>, \<open>b\<close>, \<open>c\<close> the fitted curve is \<open>a\<close> at time
  0 and \<open>b\<close> at time 1/2, and it approaches \<open>c\<close> as the time tends to 1 from below:
  for every \<open>e > 0\<close> the points at all times close enough to 1 are within distance
  \<open>e\<close> of \<open>c\<close>. (At time 1 itself it is \<open>c\<close>.)
\<close>

theorem fitCurve_passes_through:
  "\<exists>spline. fitCurve a b c = Inr spline
     \<and> evaluate spline 0 = Inr a
     \<and> evaluate spline (1/2) = Inr b
     \<and> evaluate spline 1 = Inr c
     \<and> (\<forall>e>0. \<exists>d>0. \<forall>t. 1 - d < t \<and> t < 1 \<longrightarrow>
            (\<exists>p. evaluate spline t = Inr p \<and> distance p c < e))"
proof -
  obtain spline where s: "fitCurve a b c = Inr spline"
    by (simp add: fitCurve_Inr)
  have "evaluate spline 0 = Inr a" "evaluate spline (1/2) = Inr b" "evaluate spline 1 = Inr c"
    by (simp_all add: evaluate_fitted [OF s] curvePoint_0 curvePoint_half curvePoint_1)
  moreover have "\<exists>d>0. \<forall>t. 1 - d < t \<and> t < 1 \<longrightarrow>
            (\<exists>p. evaluate spline t = Inr p \<and> distance p c < e)" if "0 < e" for e
  proof -
    from curvePoint_approaches_end [OF that, of a b c]
    obtain d where d: "0 < d" "\<And>t. 1 - d < t \<Longrightarrow> t < 1 \<Longrightarrow> distance (curvePoint a b c t) c < e"
      by blast
    define d' where "d' = min d 1"
    have "0 < d'" using d(1) by (simp add: d'_def)
    moreover have "\<exists>p. evaluate spline t = Inr p \<and> distance p c < e" if "1 - d' < t" "t < 1" for t
    proof -
      have "0 \<le> t" "1 - d < t" using that by (simp_all add: d'_def)
      then show ?thesis
        using d(2) [of t] that by (simp add: evaluate_fitted [OF s])
    qed
    ultimately show ?thesis by blast
  qed
  ultimately show ?thesis using s by blast
qed

theorem fitCurve_passes_through_witness:
  "\<exists>spline. fitCurve (Cartesian3 0 0 0) (Cartesian3 1 1 0) (Cartesian3 2 0 0) = Inr spline
     \<and> evaluate spline 0 = Inr (Cartesian3 0 0 0)
     \<and> evaluate spline (1/2) = Inr (Cartesian3 1 1 0)
     \<and> (\<exists>d>0. \<forall>t. 1 - d < t \<and> t < 1 \<longrightarrow>
            (\<exists>p. evaluate spline t = Inr p \<and> distance p (Cartesian3 2 0 0) < 1/100))"
proof -
  have "(0::real) < 1/100" by simp
  then show ?thesis
    using fitCurve_passes_through [of "Cartesian3 0 0 0" "Cartesian3 1 1 0" "Cartesian3 2 0 0"]
    by blast
qed

subsection \<open>The click handler\<close>

lemma Math_round_round: "Math_round v = round v"
  by (simp add: Math_round_def round_def)

lemma numInterpolationPoints_ge: "50 \<le> numInterpolationPoints a b c"
  by (simp add: numInterpolationPoints_def)

lemma handleCurveLeftClick_undefined:
  assumes "pickPosition m = None"
  shows "handleCurveLeftClick pickPosition this m
           = Inr (this\<lparr>selectedEntity := None, trackedEntity := None\<rparr>)"
    and "handleCurveLeftClick_collections pickPosition this m
           = Inr (this\<lparr>selectedEntity := None, trackedEntity := None\<rparr>)"
  using assms by (simp_all add: handleCurveLeftClick_def handleCurveLeftClick_collections_def)

lemma handleCurveLeftClick_pending:
  assumes "pickPosition m = Some cartesian" and "length (pointEntities this) \<noteq> 2"
  shows "handleCurveLeftClick pickPosition this m
           = Inr (this\<lparr>selectedEntity := None, trackedEntity := None,
                       viewer_entities := viewer_entities this @ [PointEntity cartesian RED],
                       pointEntities := pointEntities this @ [PointEntity cartesian RED]\<rparr>)"
    and "handleCurveLeftClick_collections pickPosition this m
           = Inr (this\<lparr>selectedEntity := None, trackedEntity := None,
                       viewer_entities := viewer_entities this @ [PointEntity cartesian RED],
                       pointEntities := pointEntities this @ [PointEntity cartesian RED]\<rparr>)"
  using assms
  by (simp_all add: handleCurveLeftClick_def handleCurveLeftClick_collections_def
        createPointEntity_def Let_def)

lemma handleCurveLeftClick_third:
  assumes "pickPosition m = Some c"
    and "pointEntities this = [PointEntity a ca, PointEntity b cb]"
    and "createCurvePoints a b c (numInterpolationPoints a b c) = Inr curvePoints"
  shows "handleCurveLeftClick pickPosition this m
           = Inr (this\<lparr>selectedEntity := None, trackedEntity := None,
                       viewer_entities := viewer_entities this
                         @ [PointEntity c RED, LineEntity curvePoints YELLOW,
                            DistanceLabel a c (measureCurveDistance curvePoints)],
                       lineEntities := lineEntities this @ [LineEntity curvePoints YELLOW],
                       labelEntities := labelEntities this
                         @ [DistanceLabel a c (measureCurveDistance curvePoints)],
                       pointEntities := []\<rparr>)"
    and "handleCurveLeftClick_collections pickPosition this m
           = Inr (this\<lparr>selectedEntity := None, trackedEntity := None,
                       viewer_entities := viewer_entities this
                         @ [PointEntity c RED, LineEntity curvePoints YELLOW,
                            DistanceLabel a c (measureCurveDistance curvePoints)],
                       pointEntities := [], lineEntities := [], labelEntities := []\<rparr>)"
  using assms
  by (simp_all add: handleCurveLeftClick_def handleCurveLeftClick_collections_def
        createPointEntity_def createLineEntity_def createDistanceLabel_def Let_def)


lemma picked_Cons:
  "picked pickPosition (m # ms) =
     (case pickPosition m of None \<Rightarrow> picked pickPosition ms
      | Some c \<Rightarrow> c # picked pickPosition ms)"
  by (simp add: picked_def map_filter_simps split: option.split)

lemma pending_triple: "length cs = 3 \<Longrightarrow> pending (cs @ ds) = pending ds"
proof -
  assume l: "length cs = 3"
  have "length ds mod 3 \<le> length ds" by simp
  then have "length (cs @ ds) - length (cs @ ds) mod 3 = 3 + (length ds - length ds mod 3)"
    using l by simp
  then show ?thesis using l by (simp add: pending_def)
qed

lemma pending_short: "length cs \<le> 2 \<Longrightarrow> pending cs = cs"
proof -
  assume "length cs \<le> 2"
  then have "length cs mod 3 = length cs" by simp
  then show ?thesis by (simp add: pending_def)
qed

lemma length_pending: "length (pending cs) \<le> 2"
proof -
  have "length cs mod 3 \<le> length cs" by simp
  then have "length (pending cs) = length cs mod 3" by (simp add: pending_def)
  moreover have "length cs mod 3 < 3" by simp
  ultimately show ?thesis by linarith
qed

lemma clicks_pending:
  assumes miss: "\<And>this m. pickPosition m = None \<Longrightarrow>
             \<exists>this'. handler this m = Inr this' \<and> pointEntities this' = pointEntities this"
    and more: "\<And>this m c. pickPosition m = Some c \<Longrightarrow> length (pointEntities this) \<noteq> 2 \<Longrightarrow>
             \<exists>this'. handler this m = Inr this'
                \<and> pointEntities this' = pointEntities this @ [PointEntity c RED]"
    and third: "\<And>this m c. pickPosition m = Some c \<Longrightarrow> length (pointEntities this) = 2 \<Longrightarrow>
             (\<forall>e \<in> set (pointEntities this). \<exists>p. e = PointEntity p RED) \<Longrightarrow>
             \<exists>this'. handler this m = Inr this' \<and> pointEntities this' = []"
    and "pointEntities this = map (\<lambda>c. PointEntity c RED) pend" and "length pend \<le> 2"
  shows "\<exists>this'. clicks handler this ms = Inr this'
           \<and> pointEntities this'
               = map (\<lambda>c. PointEntity c RED) (pending (pend @ picked pickPosition ms))"
  using assms(4,5)
proof (induction ms arbitrary: this pend)
  case Nil
  then show ?case by (simp add: picked_def pending_short)
next
  case (Cons m ms)
  show ?case
  proof (cases "pickPosition m")
    case None
    from miss [OF None, of this] obtain this1
      where step: "handler this m = Inr this1" and same: "pointEntities this1 = pointEntities this"
      by blast
    have "pointEntities this1 = map (\<lambda>c. PointEntity c RED) pend"
      using Cons.prems(1) same by simp
    from Cons.IH [OF this Cons.prems(2)] step None show ?thesis
      by (simp add: picked_Cons)
  next
    case (Some c)
    show ?thesis
    proof (cases "length pend = 2")
      case True
      have "length (pointEntities this) = 2"
        using True Cons.prems(1) by simp
      moreover have "\<forall>e \<in> set (pointEntities this). \<exists>p. e = PointEntity p RED"
        using Cons.prems(1) by auto
      ultimately obtain this1
        where step: "handler this m = Inr this1" and empty: "pointEntities this1 = []"
        using third [OF Some] by blast
      have "pointEntities this1 = map (\<lambda>c. PointEntity c RED) []"
        using empty by simp
      from Cons.IH [OF this] obtain this2
        where run: "clicks handler this1 ms = Inr this2"
          and pts: "pointEntities this2
                      = map (\<lambda>c. PointEntity c RED) (pending ([] @ picked pickPosition ms))"
        by auto
      have "pending (pend @ picked pickPosition (m # ms))
          = pending ((pend @ [c]) @ picked pickPosition ms)"
        using Some by (simp add: picked_Cons)
      also have "\<dots> = pending (picked pickPosition ms)"
        by (rule pending_triple) (simp add: True)
      finally show ?thesis using step run pts by simp
    next
      case False
      have "length (pointEntities this) \<noteq> 2"
        using False Cons.prems(1) by simp
      from more [OF Some this] obtain this1
        where step: "handler this m = Inr this1"
          and grown: "pointEntities this1 = pointEntities this @ [PointEntity c RED]"
        by blast
      have "pointEntities this1 = map (\<lambda>c. PointEntity c RED) (pend @ [c])"
        using Cons.prems(1) grown by simp
      moreover have "length (pend @ [c]) \<le> 2"
        using False Cons.prems(2) by simp
      ultimately obtain this2
        where run: "clicks handler this1 ms = Inr this2"
          and pts: "pointEntities this2
                      = map (\<lambda>c. PointEntity c RED) (pending ((pend @ [c]) @ picked pickPosition ms))"
        using Cons.IH by blast
      show ?thesis using step run pts Some by (simp add: picked_Cons)
    qed
  qed
qed

lemma two_point_entities:
  assumes "length es = 2" and "\<forall>e \<in> set es. \<exists>p. e = PointEntity p RED"
  obtains a b where "es = [PointEntity a RED, PointEntity b RED]"
proof -
  from assms(1) obtain e1 e2 where es: "es = [e1, e2]"
    by (cases es; cases "tl es") auto
  with assms(2) obtain a b where "e1 = PointEntity a RED" "e2 = PointEntity b RED"
    by auto
  with es that show ?thesis by simp
qed

lemma clicks_arrays_pending:
  "\<exists>this'. clicks (handleCurveLeftClick pickPosition) (constructor sel tracked shown) ms = Inr this'
     \<and> pointEntities this' = map (\<lambda>c. PointEntity c RED) (pending (picked pickPosition ms))"
proof -
  have "\<exists>this'. clicks (handleCurveLeftClick pickPosition) (constructor sel tracked shown) ms = Inr this'
     \<and> pointEntities this' = map (\<lambda>c. PointEntity c RED) (pending ([] @ picked pickPosition ms))"
  proof (rule clicks_pending [where pickPosition = pickPosition])
    fix this :: tool and m assume "pickPosition m = None"
    then show "\<exists>this'. handleCurveLeftClick pickPosition this m = Inr this'
                 \<and> pointEntities this' = pointEntities this"
      by (simp add: handleCurveLeftClick_undefined(1))
  next
    fix this :: tool and m c
    assume "pickPosition m = Some c" "length (pointEntities this) \<noteq> 2"
    then show "\<exists>this'. handleCurveLeftClick pickPosition this m = Inr this'
                 \<and> pointEntities this' = pointEntities this @ [PointEntity c RED]"
      by (simp add: handleCurveLeftClick_pending(1))
  next
    fix this :: tool and m c
    assume pick: "pickPosition m = Some c" and two: "length (pointEntities this) = 2"
      and pts: "\<forall>e \<in> set (pointEntities this). \<exists>p. e = PointEntity p RED"
    from two pts obtain a b where pe: "pointEntities this = [PointEntity a RED, PointEntity b RED]"
      by (rule two_point_entities)
    have cp: "createCurvePoints a b c (numInterpolationPoints a b c)
        = Inr (map (\<lambda>i. curvePoint a b c (real i / real_of_int (numInterpolationPoints a b c)))
                 [0..<nat (numInterpolationPoints a b c)])"
      by (rule createCurvePoints_Inr)
    show "\<exists>this'. handleCurveLeftClick pickPosition this m = Inr this' \<and> pointEntities this' = []"
      by (simp add: handleCurveLeftClick_third(1) [where pickPosition = pickPosition and m = m, OF pick pe cp])
  qed (simp_all add: constructor_def)
  then show ?thesis by simp
qed

lemma clicks_collections_pending:
  "\<exists>this'. clicks (handleCurveLeftClick_collections pickPosition) (constructor sel tracked shown) ms
         = Inr this'
     \<and> pointEntities this' = map (\<lambda>c. PointEntity c RED) (pending (picked pickPosition ms))"
proof -
  have "\<exists>this'. clicks (handleCurveLeftClick_collections pickPosition) (constructor sel tracked shown) ms
         = Inr this'
     \<and> pointEntities this' = map (\<lambda>c. PointEntity c RED) (pending ([] @ picked pickPosition ms))"
  proof (rule clicks_pending [where pickPosition = pickPosition])
    fix this :: tool and m assume "pickPosition m = None"
    then show "\<exists>this'. handleCurveLeftClick_collections pickPosition this m = Inr this'
                 \<and> pointEntities this' = pointEntities this"
      by (simp add: handleCurveLeftClick_undefined(2))
  next
    fix this :: tool and m c
    assume "pickPosition m = Some c" "length (pointEntities this) \<noteq> 2"
    then show "\<exists>this'. handleCurveLeftClick_collections pickPosition this m = Inr this'
                 \<and> pointEntities this' = pointEntities this @ [PointEntity c RED]"
      by (simp add: handleCurveLeftClick_pending(2))
  next
    fix this :: tool and m c
    assume pick: "pickPosition m = Some c" and two: "length (pointEntities this) = 2"
      and pts: "\<forall>e \<in> set (pointEntities this). \<exists>p. e = PointEntity p RED"
    from two pts obtain a b where pe: "pointEntities this = [PointEntity a RED, PointEntity b RED]"
      by (rule two_point_entities)
    have cp: "createCurvePoints a b c (numInterpolationPoints a b c)
        = Inr (map (\<lambda>i. curvePoint a b c (real i / real_of_int (numInterpolationPoints a b c)))
                 [0..<nat (numInterpolationPoints a b c)])"
      by (rule createCurvePoints_Inr)
    show "\<exists>this'. handleCurveLeftClick_collections pickPosition this m = Inr this'
            \<and> pointEntities this' = []"
      by (simp add: handleCurveLeftClick_third(2) [where pickPosition = pickPosition and m = m, OF pick pe cp])
  qed (simp_all add: constructor_def)
  then show ?thesis by simp
qed

lemma sqrt2_bounds: "5/4 < sqrt 2" "sqrt 2 < 7/4"
proof -
  have "sqrt ((5/4)\<^sup>2) < sqrt 2"
    by (rule real_sqrt_less_mono) (simp add: power2_eq_square)
  then show "5/4 < sqrt 2" by simp
  have "sqrt 2 < sqrt ((7/4)\<^sup>2)"
    by (rule real_sqrt_less_mono) (simp add: power2_eq_square)
  then show "sqrt 2 < 7/4" by simp
qed

lemma round_two_sqrt2: "round (2 * sqrt 2) = 3"
  using sqrt2_bounds by (intro round_unique) simp_all

text \<open>
  Claim C8. When the pick result of a left click is undefined, either handler returns
  normally and changes nothing but the viewer's selected and tracked entity, which it
  clears first: no point is added, no curve is computed (no entity is created), and the
  collections of the tool are as they were.
\<close>

theorem undefined_pick_short_circuits:
  assumes "pickPosition m = None"
  shows "handleCurveLeftClick pickPosition this m
           = Inr (this\<lparr>selectedEntity := None, trackedEntity := None\<rparr>)
       \<and> handleCurveLeftClick_collections pickPosition this m
           = Inr (this\<lparr>selectedEntity := None, trackedEntity := None\<rparr>)
       \<and> pointEntities (this\<lparr>selectedEntity := None, trackedEntity := None\<rparr>) = pointEntities this
       \<and> viewer_entities (this\<lparr>selectedEntity := None, trackedEntity := None\<rparr>) = viewer_entities this
       \<and> lineEntities (this\<lparr>selectedEntity := None, trackedEntity := None\<rparr>) = lineEntities this
       \<and> labelEntities (this\<lparr>selectedEntity := None, trackedEntity := None\<rparr>) = labelEntities this"
  using assms by (simp add: handleCurveLeftClick_undefined)

theorem undefined_pick_short_circuits_witness:
  "(\<lambda>m::nat. None :: Cartesian3 option) 7 = None
   \<and> handleCurveLeftClick (\<lambda>m::nat. None)
        \<lparr> selectedEntity = Some (PointEntity (Cartesian3 1 2 3) RED), trackedEntity = None,
          viewer_entities = [PointEntity (Cartesian3 1 2 3) RED],
          pointEntities = [PointEntity (Cartesian3 1 2 3) RED],
          lineEntities = [], labelEntities = [] \<rparr> 7
      = Inr \<lparr> selectedEntity = None, trackedEntity = None,
              viewer_entities = [PointEntity (Cartesian3 1 2 3) RED],
              pointEntities = [PointEntity (Cartesian3 1 2 3) RED],
              lineEntities = [], labelEntities = [] \<rparr>"
  using undefined_pick_short_circuits [of "\<lambda>m::nat. None" 7
      "\<lparr> selectedEntity = Some (PointEntity (Cartesian3 1 2 3) RED), trackedEntity = None,
          viewer_entities = [PointEntity (Cartesian3 1 2 3) RED],
          pointEntities = [PointEntity (Cartesian3 1 2 3) RED],
          lineEntities = [], labelEntities = [] \<rparr>"]
  by simp

text \<open>
  Claim C9. A click that captures the third point empties the pending points before the
  handler returns. Consequently, after any sequence of left clicks on a newly constructed
  tool the pending points are the picked positions left over once the complete triples are
  taken away: there are at most two of them, and none belongs to a completed triple.
\<close>

theorem capture_state_resets:
  "(pickPosition m = Some c \<and> pointEntities this = [PointEntity a RED, PointEntity b RED] \<longrightarrow>
      (\<exists>this'. handleCurveLeftClick pickPosition this m = Inr this' \<and> pointEntities this' = [])
    \<and> (\<exists>this'. handleCurveLeftClick_collections pickPosition this m = Inr this'
           \<and> pointEntities this' = []))
   \<and> (\<exists>this'. clicks (handleCurveLeftClick pickPosition) (constructor sel tracked shown) ms
                 = Inr this'
          \<and> pointEntities this' = map (\<lambda>c. PointEntity c RED) (pending (picked pickPosition ms))
          \<and> length (pointEntities this') \<le> 2)
   \<and> (\<exists>this'. clicks (handleCurveLeftClick_collections pickPosition) (constructor sel tracked shown) ms
                 = Inr this'
          \<and> pointEntities this' = map (\<lambda>c. PointEntity c RED) (pending (picked pickPosition ms))
          \<and> length (pointEntities this') \<le> 2)"
proof (intro conjI impI)
  assume h: "pickPosition m = Some c \<and> pointEntities this = [PointEntity a RED, PointEntity b RED]"
  have cp: "createCurvePoints a b c (numInterpolationPoints a b c)
        = Inr (map (\<lambda>i. curvePoint a b c (real i / real_of_int (numInterpolationPoints a b c)))
                 [0..<nat (numInterpolationPoints a b c)])"
    by (rule createCurvePoints_Inr)
  from h have pick: "pickPosition m = Some c"
    and pe: "pointEntities this = [PointEntity a RED, PointEntity b RED]"
    by simp_all
  show "\<exists>this'. handleCurveLeftClick pickPosition this m = Inr this' \<and> pointEntities this' = []"
    by (simp add: handleCurveLeftClick_third(1) [where pickPosition = pickPosition and m = m, OF pick pe cp])
  show "\<exists>this'. handleCurveLeftClick_collections pickPosition this m = Inr this'
           \<and> pointEntities this' = []"
    by (simp add: handleCurveLeftClick_third(2) [where pickPosition = pickPosition and m = m, OF pick pe cp])
next
  from clicks_arrays_pending [of pickPosition sel tracked shown ms]
  show "\<exists>this'. clicks (handleCurveLeftClick pickPosition) (constructor sel tracked shown) ms
                 = Inr this'
          \<and> pointEntities this' = map (\<lambda>c. PointEntity c RED) (pending (picked pickPosition ms))
          \<and> length (pointEntities this') \<le> 2"
    using length_pending [of "picked pickPosition ms"] by auto
next
  from clicks_collections_pending [of pickPosition sel tracked shown ms]
  show "\<exists>this'. clicks (handleCurveLeftClick_collections pickPosition) (constructor sel tracked shown) ms
                 = Inr this'
          \<and> pointEntities this' = map (\<lambda>c. PointEntity c RED) (pending (picked pickPosition ms))
          \<and> length (pointEntities this') \<le> 2"
    using length_pending [of "picked pickPosition ms"] by auto
qed

theorem capture_state_resets_witness:
  "(\<lambda>m::nat. if m = 0 then None else Some (Cartesian3 (real m) 0 0)) 3 = Some (Cartesian3 3 0 0)
   \<and> (\<exists>this'. handleCurveLeftClick (\<lambda>m::nat. if m = 0 then None else Some (Cartesian3 (real m) 0 0))
          \<lparr> selectedEntity = None, trackedEntity = None, viewer_entities = [],
            pointEntities = [PointEntity (Cartesian3 1 0 0) RED, PointEntity (Cartesian3 2 0 0) RED],
            lineEntities = [], labelEntities = [] \<rparr> 3 = Inr this'
        \<and> pointEntities this' = [])
   \<and> (\<exists>this'. clicks (handleCurveLeftClick (\<lambda>m::nat. if m = 0 then None else Some (Cartesian3 (real m) 0 0)))
          (constructor None None []) [1, 0, 2, 3, 4] = Inr this'
        \<and> pointEntities this' = [PointEntity (Cartesian3 4 0 0) RED])"
proof -
  let ?pick = "\<lambda>m::nat. if m = 0 then None else Some (Cartesian3 (real m) 0 0)"
  let ?tool = "\<lparr> selectedEntity = None, trackedEntity = None, viewer_entities = [],
            pointEntities = [PointEntity (Cartesian3 1 0 0) RED, PointEntity (Cartesian3 2 0 0) RED],
            lineEntities = [], labelEntities = [] \<rparr>"
  have p: "pending (picked ?pick [1, 0, 2, 3, 4]) = [Cartesian3 4 0 0]"
    by (simp add: picked_def pending_def map_filter_simps)
  note w = capture_state_resets [where pickPosition = ?pick and m = 3 and c = "Cartesian3 3 0 0"
        and this = ?tool and a = "Cartesian3 1 0 0" and b = "Cartesian3 2 0 0"
        and sel = None and tracked = None and shown = "[]" and ms = "[1, 0, 2, 3, 4]"]
  have h: "?pick 3 = Some (Cartesian3 3 0 0)
      \<and> pointEntities ?tool = [PointEntity (Cartesian3 1 0 0) RED, PointEntity (Cartesian3 2 0 0) RED]"
    by simp
  from w h have "\<exists>this'. handleCurveLeftClick ?pick ?tool 3 = Inr this' \<and> pointEntities this' = []"
    by blast
  moreover from w have "\<exists>this'. clicks (handleCurveLeftClick ?pick) (constructor None None [])
          [1, 0, 2, 3, 4] = Inr this'
        \<and> pointEntities this' = map (\<lambda>c. PointEntity c RED) (pending (picked ?pick [1, 0, 2, 3, 4]))"
    by blast
  then have "\<exists>this'. clicks (handleCurveLeftClick ?pick) (constructor None None [])
          [1, 0, 2, 3, 4] = Inr this'
        \<and> pointEntities this' = [PointEntity (Cartesian3 4 0 0) RED]"
    unfolding p by (simp del: clicks.simps)
  ultimately show ?thesis using h by blast
qed

text \<open>
  Claim C3. When a click completes a triple \<open>(a, b, c)\<close>, the number of samples passed
  to \<open>createCurvePoints\<close> is \<open>max (round (dist a b + dist b c) * 50) 50\<close>: the curve that
  the handler adds to the viewer is the result of \<open>createCurvePoints\<close> at that number and
  has that many points. The number is at least 50, hence positive.
\<close>

theorem sample_count_of_triple:
  assumes "pickPosition m = Some c"
    and "pointEntities this = [PointEntity a ca, PointEntity b cb]"
  shows "\<exists>curvePoints this1 this2.
           createCurvePoints a b c (max (round (distance a b + distance b c) * 50) 50)
             = Inr curvePoints
         \<and> length curvePoints = nat (max (round (distance a b + distance b c) * 50) 50)
         \<and> handleCurveLeftClick pickPosition this m = Inr this1
         \<and> viewer_entities this1
             = viewer_entities this
               @ [PointEntity c RED, LineEntity curvePoints YELLOW,
                  DistanceLabel a c (measureCurveDistance curvePoints)]
         \<and> handleCurveLeftClick_collections pickPosition this m = Inr this2
         \<and> viewer_entities this2 = viewer_entities this1
         \<and> 50 \<le> max (round (distance a b + distance b c) * 50) 50
         \<and> 0 < max (round (distance a b + distance b c) * 50) 50"
proof -
  let ?n = "max (round (distance a b + distance b c) * 50) 50"
  let ?ps = "map (\<lambda>i. curvePoint a b c (real i / real_of_int ?n)) [0..<nat ?n]"
  have n: "numInterpolationPoints a b c = ?n"
    by (simp add: numInterpolationPoints_def Math_round_round)
  have cp: "createCurvePoints a b c (numInterpolationPoints a b c) = Inr ?ps"
    unfolding n by (rule createCurvePoints_Inr)
  note third = handleCurveLeftClick_third [where pickPosition = pickPosition and m = m,
      OF assms(1) assms(2) cp]
  have "createCurvePoints a b c ?n = Inr ?ps" using cp n by simp
  moreover have "length ?ps = nat ?n" by simp
  moreover have "50 \<le> ?n" "0 < ?n" by simp_all
  ultimately show ?thesis
    using third by simp
qed

theorem sample_count_of_triple_witness:
  "(\<lambda>m::nat. Some (Cartesian3 2 0 0)) 0 = Some (Cartesian3 2 0 0)
   \<and> max (round (distance (Cartesian3 0 0 0) (Cartesian3 1 1 0)
                  + distance (Cartesian3 1 1 0) (Cartesian3 2 0 0)) * 50) 50 = 150
   \<and> (\<exists>curvePoints.
         createCurvePoints (Cartesian3 0 0 0) (Cartesian3 1 1 0) (Cartesian3 2 0 0) 150
           = Inr curvePoints
       \<and> length curvePoints = 150)"
proof -
  have d: "distance (Cartesian3 0 0 0) (Cartesian3 1 1 0) = sqrt 2"
          "distance (Cartesian3 1 1 0) (Cartesian3 2 0 0) = sqrt 2"
    by (simp_all add: distance_def magnitude_def magnitudeSquared_def subtract_def)
  have pe: "pointEntities \<lparr> selectedEntity = None, trackedEntity = None, viewer_entities = [],
            pointEntities = [PointEntity (Cartesian3 0 0 0) RED, PointEntity (Cartesian3 1 1 0) RED],
            lineEntities = [], labelEntities = [] \<rparr>
       = [PointEntity (Cartesian3 0 0 0) RED, PointEntity (Cartesian3 1 1 0) RED]"
    by simp
  have pick: "(\<lambda>m::nat. Some (Cartesian3 2 0 0)) 0 = Some (Cartesian3 2 0 0)"
    by simp
  show ?thesis
    using sample_count_of_triple [where pickPosition = "\<lambda>m::nat. Some (Cartesian3 2 0 0)" and m = 0,
        OF pick pe]
    by (auto simp: d round_two_sqrt2)
qed

subsection \<open>Polylines along a curve\<close>

lemma measureCurveDistance_map_upt:
  "measureCurveDistance (map h [0..<M]) = (\<Sum>j<M - 1. distance (h j) (h (Suc j)))"
proof -
  have "measureCurveDistance (map h [0..<M])
      = (\<Sum>i = 1..<M. distance (map h [0..<M] ! (i - 1)) (map h [0..<M] ! i))"
    by (simp add: measureCurveDistance_sum)
  also have "\<dots> = (\<Sum>i = 1..<M. distance (h (i - 1)) (h i))"
    by (rule sum.cong) auto
  also have "\<dots> = (\<Sum>j<M - 1. distance (h j) (h (Suc j)))"
    by (rule sum.reindex_bij_witness [where i = Suc and j = "\<lambda>i. i - 1"]) auto
  finally show ?thesis .
qed

lemma chord_le_path:
  "a \<le> b \<Longrightarrow> distance (h a) (h b)
     \<le> (\<Sum>j<b. distance (h j) (h (Suc j))) - (\<Sum>j<a. distance (h j) (h (Suc j)))"
proof (induction b)
  case 0
  then show ?case by (simp add: distance_self)
next
  case (Suc b)
  show ?case
  proof (cases "a = Suc b")
    case True
    then show ?thesis by (simp add: distance_self)
  next
    case False
    with Suc.prems have "a \<le> b" by simp
    from Suc.IH [OF this] distance_triangle [of "h a" "h (Suc b)" "h b"]
    show ?thesis by simp
  qed
qed

lemma path_mono:
  "a \<le> b \<Longrightarrow> (\<Sum>j<a. distance (h j) (h (Suc j))) \<le> (\<Sum>j<b. distance (h j) (h (Suc j)))"
  by (rule sum_mono2) (auto simp: distance_nonneg)



subsection \<open>Control points on a straight line\<close>

text \<open>
  For the control points \<open>(0, 0, 0)\<close>, \<open>(1/2, 0, 0)\<close>, \<open>(1, 0, 0)\<close> the fitted curve
  stays on the x axis and its x coordinate never decreases, so the length measured on the
  samples is the x coordinate of the last sample.
\<close>

lemma distance_x_axis: "distance (Cartesian3 x y z) (Cartesian3 x' y z) = \<bar>x - x'\<bar>"
proof -
  have "distance (Cartesian3 x y z) (Cartesian3 x' y z) = sqrt ((x - x')\<^sup>2)"
    by (simp add: distance_def magnitude_def magnitudeSquared_def subtract_def power2_eq_square)
  then show ?thesis by simp
qed





lemma numInterpolationPoints_straight:
  "numInterpolationPoints (Cartesian3 0 0 0) (Cartesian3 (1/2) 0 0) (Cartesian3 1 0 0) = 50"
proof -
  have "round (1::real) = 1" by simp
  then show ?thesis
    by (simp add: numInterpolationPoints_def Math_round_round distance_x_axis)
qed

lemma cubic_step:
  fixes u v :: real
  assumes "0 \<le> u" "u \<le> v" "v \<le> 1"
  shows "u * u + u * v + v * v \<le> u + 2 * v"
proof -
  have "u * u \<le> u * 1" using assms by (intro mult_left_mono) simp_all
  moreover have "u * v \<le> 1 * v" using assms by (intro mult_right_mono) simp_all
  moreover have "v * v \<le> v * 1" using assms by (intro mult_left_mono) simp_all
  ultimately show ?thesis by simp
qed

lemma first_cubic_mono:
  fixes u v :: real
  assumes "0 \<le> u" "u \<le> v" "v \<le> 1"
  shows "2 * (u * u) - u * u * u \<le> 2 * (v * v) - v * v * v"
proof -
  have "0 \<le> (v - u) * (2 * (u + v) - (u * u + u * v + v * v))"
    using assms cubic_step [OF assms] by (intro mult_nonneg_nonneg) simp_all
  also have "\<dots> = (2 * (v * v) - v * v * v) - (2 * (u * u) - u * u * u)"
    by (simp add: algebra_simps)
  finally show ?thesis by simp
qed

lemma last_cubic_mono:
  fixes u v :: real
  assumes "0 \<le> u" "u \<le> v" "v \<le> 1"
  shows "1 + u + u * u - u * u * u \<le> 1 + v + v * v - v * v * v"
proof -
  have "0 \<le> (v - u) * (1 + (u + v) - (u * u + u * v + v * v))"
    using assms cubic_step [OF assms] by (intro mult_nonneg_nonneg) simp_all
  also have "\<dots> = (1 + v + v * v - v * v * v) - (1 + u + u * u - u * u * u)"
    by (simp add: algebra_simps)
  finally show ?thesis by simp
qed

lemma straight_firstSegment:
  "firstSegment (Cartesian3 0 0 0) (Cartesian3 (1/2) 0 0) (Cartesian3 1 0 0) t
     = Cartesian3 ((2 * ((2 * t) * (2 * t)) - (2 * t) * (2 * t) * (2 * t)) / 2) 0 0"
  by (simp add: firstSegment_def blend_def hermiteCoefficients_def add_def multiplyByScalar_def
        subtract_def field_simps)

lemma straight_lastSegment:
  "lastSegment (Cartesian3 0 0 0) (Cartesian3 (1/2) 0 0) (Cartesian3 1 0 0) t
     = Cartesian3 ((1 + (2 * t - 1) + (2 * t - 1) * (2 * t - 1)
                      - (2 * t - 1) * (2 * t - 1) * (2 * t - 1)) / 2) 0 0"
  by (simp add: lastSegment_def blend_def hermiteCoefficients_def add_def multiplyByScalar_def
        subtract_def field_simps)

lemma straight_on_axis:
  "curvePoint (Cartesian3 0 0 0) (Cartesian3 (1/2) 0 0) (Cartesian3 1 0 0) t
     = Cartesian3 (cx (curvePoint (Cartesian3 0 0 0) (Cartesian3 (1/2) 0 0) (Cartesian3 1 0 0) t)) 0 0"
  by (simp add: curvePoint_def straight_firstSegment straight_lastSegment)

lemma straight_mono:
  assumes "0 \<le> s" "s \<le> t" "t \<le> 1"
  shows "cx (curvePoint (Cartesian3 0 0 0) (Cartesian3 (1/2) 0 0) (Cartesian3 1 0 0) s)
       \<le> cx (curvePoint (Cartesian3 0 0 0) (Cartesian3 (1/2) 0 0) (Cartesian3 1 0 0) t)"
proof -
  let ?f = "\<lambda>u::real. 2 * (u * u) - u * u * u"
  let ?g = "\<lambda>u::real. 1 + u + u * u - u * u * u"
  consider "t < 1/2" | "1/2 \<le> s" | "s < 1/2" "1/2 \<le> t" by linarith
  then show ?thesis
  proof cases
    case 1
    then have "?f (2 * s) \<le> ?f (2 * t)"
      using assms by (intro first_cubic_mono) simp_all
    with 1 assms show ?thesis
      by (simp add: curvePoint_def straight_firstSegment)
  next
    case 2
    then have "?g (2 * s - 1) \<le> ?g (2 * t - 1)"
      using assms by (intro last_cubic_mono) simp_all
    with 2 assms show ?thesis
      by (simp add: curvePoint_def straight_lastSegment)
  next
    case 3
    have "?f (2 * s) \<le> ?f 1"
      using 3 assms by (intro first_cubic_mono) simp_all
    moreover have "?g 0 \<le> ?g (2 * t - 1)"
      using 3 assms by (intro last_cubic_mono) simp_all
    ultimately show ?thesis
      using 3 by (simp add: curvePoint_def straight_firstSegment straight_lastSegment)
  qed
qed

lemma straight_measured:
  assumes "1 \<le> n"
  shows "measureCurveDistance
           (map (\<lambda>i. curvePoint (Cartesian3 0 0 0) (Cartesian3 (1/2) 0 0) (Cartesian3 1 0 0)
                        (real i / real_of_int n)) [0..<nat n])
       = cx (curvePoint (Cartesian3 0 0 0) (Cartesian3 (1/2) 0 0) (Cartesian3 1 0 0)
               (real (nat n - 1) / real_of_int n))"
proof -
  let ?h = "\<lambda>i. curvePoint (Cartesian3 0 0 0) (Cartesian3 (1/2) 0 0) (Cartesian3 1 0 0)
                  (real i / real_of_int n)"
  let ?F = "\<lambda>i. cx (?h i)"
  have step: "distance (?h j) (?h (Suc j)) = ?F (Suc j) - ?F j" if "j < nat n - 1" for j
  proof -
    have "0 \<le> real j / real_of_int n" "real j / real_of_int n \<le> real (Suc j) / real_of_int n"
      "real (Suc j) / real_of_int n \<le> 1"
      using assms that by (simp_all add: divide_right_mono)
    then have "?F j \<le> ?F (Suc j)" by (rule straight_mono)
    moreover have "distance (?h j) (?h (Suc j)) = \<bar>?F j - ?F (Suc j)\<bar>"
      by (subst (1 2) straight_on_axis) (simp only: distance_x_axis)
    ultimately show ?thesis by simp
  qed
  have "measureCurveDistance (map ?h [0..<nat n]) = (\<Sum>j<nat n - 1. distance (?h j) (?h (Suc j)))"
    by (rule measureCurveDistance_map_upt)
  also have "\<dots> = (\<Sum>j<nat n - 1. ?F (Suc j) - ?F j)"
    by (rule sum.cong) (simp_all only: step lessThan_iff)
  also have "\<dots> = ?F (nat n - 1) - ?F 0"
    by (rule sum_lessThan_telescope)
  also have "?F 0 = 0"
    by (simp add: curvePoint_0)
  finally show ?thesis by simp
qed

lemma measured_straight:
  "measureCurveDistance
     (map (\<lambda>i. curvePoint (Cartesian3 0 0 0) (Cartesian3 (1/2) 0 0) (Cartesian3 1 0 0) (real i / 50))
        [0..<50])
    = 31201/31250"
proof -
  have "cx (curvePoint (Cartesian3 0 0 0) (Cartesian3 (1/2) 0 0) (Cartesian3 1 0 0) (49/50))
      = 31201/31250"
    by (simp add: curvePoint_def straight_lastSegment)
  then show ?thesis
    using straight_measured [of 50] by simp
qed

subsection \<open>Refinement of the sampling\<close>




section \<open>Properties in double arithmetic\<close>

subsection \<open>Rounding\<close>

lemma roundTiesToEven_near: "\<bar>of_int (roundTiesToEven m) - m\<bar> \<le> 1/2"
proof -
  have "of_int \<lfloor>m\<rfloor> \<le> m" "m < of_int \<lfloor>m\<rfloor> + 1" by linarith+
  then show ?thesis by (auto simp: roundTiesToEven_def Let_def)
qed

lemma roundTiesToEven_of_int: "roundTiesToEven (of_int k) = k"
  by (simp add: roundTiesToEven_def)

lemma roundTiesToEven_le: "m \<le> of_int N \<Longrightarrow> roundTiesToEven m \<le> N"
proof -
  assume a: "m \<le> of_int N"
  have f: "of_int \<lfloor>m\<rfloor> \<le> m" by simp
  show ?thesis
  proof (cases "m = of_int N")
    case True
    then show ?thesis by (simp add: roundTiesToEven_of_int)
  next
    case False
    with a have "m < of_int N" by simp
    then have "\<lfloor>m\<rfloor> < N" by (simp add: floor_less_iff)
    then show ?thesis by (auto simp: roundTiesToEven_def Let_def)
  qed
qed

lemma roundTiesToEven_ge: "of_int N \<le> m \<Longrightarrow> N \<le> roundTiesToEven m"
proof -
  assume "of_int N \<le> m"
  then have "N \<le> \<lfloor>m\<rfloor>" by (simp add: le_floor_iff)
  then show ?thesis by (auto simp: roundTiesToEven_def Let_def)
qed

lemma roundTiesToEven_minus: "roundTiesToEven (- m) = - roundTiesToEven m"
proof (cases "m = of_int \<lfloor>m\<rfloor>")
  case True
  then obtain k where "m = of_int k" ..
  then have "- m = of_int (- k)" by simp
  then show ?thesis
    using \<open>m = of_int k\<close> by (simp only: roundTiesToEven_of_int)
next
  case False
  have lo: "of_int \<lfloor>m\<rfloor> \<le> m" and hi: "m < of_int \<lfloor>m\<rfloor> + 1" by linarith+
  from False lo have lo': "of_int \<lfloor>m\<rfloor> < m" by linarith
  have "\<lfloor>- m\<rfloor> = - \<lfloor>m\<rfloor> - 1"
  proof (rule floor_unique)
    have "- real_of_int \<lfloor>m\<rfloor> - 1 \<le> - m" using hi by linarith
    then show "of_int (- \<lfloor>m\<rfloor> - 1) \<le> - m" by simp
    have "- m < - real_of_int \<lfloor>m\<rfloor>" using lo' by linarith
    then show "- m < of_int (- \<lfloor>m\<rfloor> - 1) + 1" by simp
  qed
  then show ?thesis
    using lo' hi by (auto simp: roundTiesToEven_def Let_def)
qed

lemma double_exponent_bounds:
  assumes "v \<noteq> 0"
  shows "2 powr (of_int (double_exponent v) + 52) \<le> \<bar>v\<bar>"
    and "\<bar>v\<bar> < 2 powr (of_int (double_exponent v) + 53)"
proof -
  have "\<lfloor>log 2 \<bar>v\<bar>\<rfloor> = double_exponent v + 52"
    by (simp add: double_exponent_def)
  with assms have "2 powr of_int (double_exponent v + 52) \<le> \<bar>v\<bar>
      \<and> \<bar>v\<bar> < 2 powr (of_int (double_exponent v + 52) + 1)"
    by (subst (asm) floor_log_eq_powr_iff) simp_all
  then show "2 powr (of_int (double_exponent v) + 52) \<le> \<bar>v\<bar>"
    and "\<bar>v\<bar> < 2 powr (of_int (double_exponent v) + 53)"
    by (simp_all add: add.commute add.left_commute)
qed

lemma double_exponent_eq:
  assumes "v \<noteq> 0" "2 powr (of_int e + 52) \<le> \<bar>v\<bar>" "\<bar>v\<bar> < 2 powr (of_int e + 53)"
  shows "double_exponent v = e"
proof -
  have "\<lfloor>log 2 \<bar>v\<bar>\<rfloor> = e + 52"
    using assms by (subst floor_log_eq_powr_iff) (simp_all add: add.commute add.left_commute)
  then show ?thesis by (simp add: double_exponent_def)
qed

lemma scaled_bounds:
  assumes "v \<noteq> 0"
  shows "2 ^ 52 \<le> \<bar>v\<bar> / 2 powr of_int (double_exponent v)"
    and "\<bar>v\<bar> / 2 powr of_int (double_exponent v) < 2 ^ 53"
proof -
  let ?e = "of_int (double_exponent v) :: real"
  have p: "0 < 2 powr ?e" by simp
  have "2 powr (?e + 52) = 2 powr ?e * 2 ^ 52" "2 powr (?e + 53) = 2 powr ?e * 2 ^ 53"
    by (simp_all add: powr_add)
  with double_exponent_bounds [OF assms]
  have "2 powr ?e * 2 ^ 52 \<le> \<bar>v\<bar>" "\<bar>v\<bar> < 2 powr ?e * 2 ^ 53" by simp_all
  with p show "2 ^ 52 \<le> \<bar>v\<bar> / 2 powr ?e" "\<bar>v\<bar> / 2 powr ?e < 2 ^ 53"
    by (simp_all add: field_simps)
qed

lemma fl_0: "fl 0 = 0"
  by (simp add: fl_def)

lemma fl_minus: "fl (- v) = - fl v"
  by (simp add: fl_def double_exponent_def roundTiesToEven_minus)

lemma fl_error: "\<bar>fl v - v\<bar> \<le> \<bar>v\<bar> / 2 ^ 53"
proof (cases "v = 0")
  case True
  then show ?thesis by (simp add: fl_0)
next
  case False
  let ?p = "2 powr of_int (double_exponent v) :: real"
  let ?m = "v / ?p"
  have p: "0 < ?p" by simp
  have "fl v - v = (of_int (roundTiesToEven ?m) - ?m) * ?p"
    using False by (simp add: fl_def field_simps)
  then have "\<bar>fl v - v\<bar> = \<bar>of_int (roundTiesToEven ?m) - ?m\<bar> * ?p"
    by (simp add: abs_mult)
  also have "\<dots> \<le> (1/2) * ?p"
    by (intro mult_right_mono roundTiesToEven_near) simp
  also have "\<dots> \<le> \<bar>v\<bar> / 2 ^ 53"
  proof -
    from scaled_bounds(1) [OF False] p have "2 ^ 52 * ?p \<le> \<bar>v\<bar>"
      by (simp add: field_simps)
    then show ?thesis by simp
  qed
  finally show ?thesis .
qed

lemma fl_eval:
  fixes k :: nat
  assumes "2 ^ 52 \<le> \<bar>v\<bar> * 2 ^ k" "\<bar>v\<bar> * 2 ^ k < 2 ^ 53"
  shows "fl v = of_int (roundTiesToEven (v * 2 ^ k)) / 2 ^ k"
proof -
  have nz: "v \<noteq> 0" using assms(1) by auto
  have pk: "2 powr (- real k) = 1 / 2 ^ k"
    by (simp add: powr_minus powr_realpow inverse_eq_divide)
  have p52: "(2::real) powr 52 = 2 ^ 52" and p53: "(2::real) powr 53 = 2 ^ 53"
    by simp_all
  have "double_exponent v = - int k"
  proof (rule double_exponent_eq [OF nz])
    have "(2::real) powr (of_int (- int k) + 52) = 2 powr (- real k) * 2 powr 52"
      by (simp only: powr_add of_int_minus of_int_of_nat_eq)
    then have "(2::real) powr (of_int (- int k) + 52) = 2 ^ 52 / 2 ^ k"
      by (simp only: pk p52) simp
    moreover have "2 ^ 52 / 2 ^ k \<le> \<bar>v\<bar>"
      using assms(1) by (simp add: field_simps)
    ultimately show "2 powr (of_int (- int k) + 52) \<le> \<bar>v\<bar>"
      by (simp only:)
    have "(2::real) powr (of_int (- int k) + 53) = 2 powr (- real k) * 2 powr 53"
      by (simp only: powr_add of_int_minus of_int_of_nat_eq)
    then have "(2::real) powr (of_int (- int k) + 53) = 2 ^ 53 / 2 ^ k"
      by (simp only: pk p53) simp
    moreover have "\<bar>v\<bar> < 2 ^ 53 / 2 ^ k"
      using assms(2) by (simp add: field_simps)
    ultimately show "\<bar>v\<bar> < 2 powr (of_int (- int k) + 53)"
      by (simp only:)
  qed
  then show ?thesis
    using nz by (simp add: fl_def pk)
qed

lemma fl_lower: "0 \<le> v \<Longrightarrow> (1 - 1 / 2 ^ 53) * v \<le> fl v"
proof -
  assume v: "0 \<le> v"
  define d where "d = v / 2 ^ 53"
  have "\<bar>fl v - v\<bar> \<le> d" using fl_error [of v] v by (simp add: d_def)
  then have "v - d \<le> fl v" by linarith
  moreover have "(1 - 1 / 2 ^ 53) * v = v - d" by (simp add: d_def algebra_simps)
  ultimately show ?thesis by simp
qed

lemma fl_nonneg: "0 \<le> v \<Longrightarrow> 0 \<le> fl v"
proof -
  assume v: "0 \<le> v"
  have "0 \<le> (1 - 1 / 2 ^ 53) * v" using v by (intro mult_nonneg_nonneg) simp_all
  with fl_lower [OF v] show ?thesis by linarith
qed

lemma fl_le_1:
  assumes "0 \<le> v" "v \<le> 1"
  shows "fl v \<le> 1"
proof (cases "v = 0")
  case True
  then show ?thesis by (simp add: fl_0)
next
  case False
  let ?e = "double_exponent v"
  let ?p = "2 powr of_int ?e :: real"
  have "2 powr (of_int ?e + 52) \<le> \<bar>v\<bar>" by (rule double_exponent_bounds(1) [OF False])
  also have "\<dots> \<le> 2 powr 0" using assms by simp
  finally have "of_int ?e + 52 \<le> (0::real)" by (simp only: powr_le_cancel_iff) 
  then have e: "?e \<le> 0" by linarith
  define j where "j = nat (- ?e)"
  have ej: "of_int ?e = - real j" using e by (simp add: j_def)
  have p: "?p = 1 / 2 ^ j"
    by (simp add: ej powr_minus powr_realpow inverse_eq_divide)
  have "v / ?p \<le> of_int (2 ^ j)"
    using assms by (simp add: p)
  then have "roundTiesToEven (v / ?p) \<le> 2 ^ j" by (rule roundTiesToEven_le)
  then have "(of_int (roundTiesToEven (v / ?p)) :: real) \<le> 2 ^ j"
    by (metis of_int_le_iff of_int_numeral of_int_power)
  then show ?thesis
    using False by (simp add: fl_def p field_simps)
qed

lemma fl_idem: "fl (fl v) = fl v"
proof (cases "v = 0")
  case True
  then show ?thesis by (simp add: fl_0)
next
  case False
  define e where "e = double_exponent v"
  define p :: real where "p = 2 powr of_int e"
  define R where "R = roundTiesToEven (v / p)"
  have p: "0 < p" by (simp add: p_def)
  have y: "fl v = of_int R * p"
    using False by (simp add: fl_def R_def p_def e_def)
  have lo: "2 ^ 52 \<le> \<bar>v\<bar> / p" and hi: "\<bar>v\<bar> / p < 2 ^ 53"
    unfolding p_def e_def by (rule scaled_bounds [OF False])+
  have absR: "\<bar>R\<bar> = roundTiesToEven (\<bar>v\<bar> / p)"
  proof (cases "0 \<le> v")
    case True
    then have "0 \<le> v / p" using p by simp
    then have "0 \<le> R" unfolding R_def using roundTiesToEven_ge [of 0 "v / p"] by simp
    with True show ?thesis by (simp add: R_def)
  next
    case False
    then have n: "\<bar>v\<bar> / p = - (v / p)" by simp
    from False p have "v / p \<le> of_int 0" by (simp add: divide_nonpos_pos)
    then have "R \<le> 0" unfolding R_def by (rule roundTiesToEven_le)
    then show ?thesis by (simp add: n roundTiesToEven_minus R_def)
  qed
  have R52: "2 ^ 52 \<le> \<bar>R\<bar>"
    unfolding absR using lo by (intro roundTiesToEven_ge) simp
  have R53: "\<bar>R\<bar> \<le> 2 ^ 53"
    unfolding absR using hi by (intro roundTiesToEven_le) simp
  have R0: "R \<noteq> 0" using R52 by auto
  have y0: "of_int R * p \<noteq> 0" using R0 p by simp
  have absy: "\<bar>of_int R * p\<bar> = of_int \<bar>R\<bar> * p" using p by (simp add: abs_mult)
  have p52: "2 powr (of_int e + 52) = p * 2 ^ 52" and p53: "2 powr (of_int e + 53) = p * 2 ^ 53"
    by (simp_all add: p_def powr_add)
  show ?thesis
  proof (cases "\<bar>R\<bar> = 2 ^ 53")
    case False
    with R53 have lt: "\<bar>R\<bar> < 2 ^ 53" by simp
    have "real_of_int (2 ^ 52) \<le> of_int \<bar>R\<bar>" using R52 by (simp only: of_int_le_iff)
    then have a: "p * 2 ^ 52 \<le> of_int \<bar>R\<bar> * p" using p by simp
    have "real_of_int \<bar>R\<bar> < of_int (2 ^ 53)" using lt by (simp only: of_int_less_iff)
    then have b: "of_int \<bar>R\<bar> * p < p * 2 ^ 53" using p by simp
    have "double_exponent (of_int R * p) = e"
      by (rule double_exponent_eq [OF y0]) (simp_all only: absy p52 p53 a b)
    then have "fl (of_int R * p) = of_int (roundTiesToEven (of_int R * p / p)) * p"
      using y0 by (simp add: fl_def p_def)
    also have "of_int R * p / p = of_int R" using p by simp
    finally show ?thesis by (simp add: y roundTiesToEven_of_int)
  next
    case True
    then have ay: "\<bar>of_int R * p\<bar> = p * 2 ^ 53" by (simp add: absy)
    have q: "2 powr (real_of_int e + 1) = 2 * p" by (simp add: p_def powr_add)
    have "double_exponent (of_int R * p) = e + 1"
    proof (rule double_exponent_eq [OF y0])
      have "2 powr (of_int (e + 1) + 52) = p * 2 ^ 53"
        by (simp add: p_def powr_add)
      then show "2 powr (of_int (e + 1) + 52) \<le> \<bar>of_int R * p\<bar>" by (simp add: ay)
      have "2 powr (of_int (e + 1) + 53) = p * 2 ^ 54"
        by (simp add: p_def powr_add)
      then show "\<bar>of_int R * p\<bar> < 2 powr (of_int (e + 1) + 53)" using p by (simp add: ay)
    qed
    then have f: "fl (of_int R * p) = of_int (roundTiesToEven (of_int R * p / (2 * p))) * (2 * p)"
      using y0 by (simp add: fl_def q)
    from True have "R = 2 ^ 53 \<or> R = - (2 ^ 53)" by (simp add: abs_if split: if_splits)
    then obtain h :: int where h: "R = 2 * h" by auto
    have "of_int R * p / (2 * p) = real_of_int h" using p by (simp add: h)
    then have "fl (of_int R * p) = of_int h * (2 * p)"
      by (simp only: f roundTiesToEven_of_int)
    also have "\<dots> = of_int R * p" by (simp add: h)
    finally show ?thesis by (simp only: y)
  qed
qed

subsection \<open>The rounded model\<close>

lemma chords_r_snoc:
  "chords_r rnd (ps @ [q])
     = (if ps = [] then [] else chords_r rnd ps @ [distance_r rnd (last ps) q])"
  by (induction rnd ps rule: chords_r.induct) simp_all

lemma length_chords_r: "length (chords_r rnd ps) = length ps - 1"
  by (induction rnd ps rule: chords_r.induct) simp_all

lemma measureCurveDistance_r_snoc:
  "measureCurveDistance_r rnd (ps @ [q])
     = (if ps = [] then 0
        else rnd (measureCurveDistance_r rnd ps + distance_r rnd (last ps) q))"
proof -
  let ?g = "\<lambda>xs i acc. if i > 0 then rnd (acc + distance_r rnd (xs ! (i - 1)) (xs ! i)) else acc"
  have same: "fold (?g (ps @ [q])) [0..<length ps] 0 = fold (?g ps) [0..<length ps] 0"
    by (rule fold_cong) (simp_all add: nth_append fun_eq_iff less_imp_diff_less)
  show ?thesis
  proof (cases "ps = []")
    case True
    then show ?thesis by (simp add: measureCurveDistance_r_def)
  next
    case False
    then have l: "0 < length ps" by simp
    have "(ps @ [q]) ! (length ps - 1) = last ps"
      using False by (simp add: nth_append last_conv_nth)
    then show ?thesis
      using False l by (simp add: measureCurveDistance_r_def same)
  qed
qed

lemma measureCurveDistance_r_chords:
  "measureCurveDistance_r rnd ps = foldl (\<lambda>acc c. rnd (acc + c)) 0 (chords_r rnd ps)"
proof (induction ps rule: rev_induct)
  case Nil
  show ?case by (simp add: measureCurveDistance_r_def)
next
  case (snoc q ps)
  then show ?case
    by (simp add: measureCurveDistance_r_snoc chords_r_snoc)
qed

lemma distance_r_commute: "distance_r fl p q = distance_r fl q p"
proof -
  have neg: "fl (u - v) = - fl (v - u)" for u v :: real
    using fl_minus [of "v - u"] by simp
  have "magnitudeSquared_r fl (subtract_r fl p q) = magnitudeSquared_r fl (subtract_r fl q p)"
    unfolding magnitudeSquared_r_def subtract_r_def Cartesian3.sel
    by (simp only: neg [of "cx p" "cx q"] neg [of "cy p" "cy q"] neg [of "cz p" "cz q"]
          minus_mult_minus)
  then show ?thesis
    by (simp only: distance_r_def magnitude_r_def)
qed

lemma chords_r_rev: "chords_r fl (rev ps) = rev (chords_r fl ps)"
proof (induction ps rule: pathLength.induct)
  case (3 p q ps)
  have "chords_r fl (rev (p # q # ps)) = chords_r fl (rev (q # ps) @ [p])" by simp
  also have "\<dots> = chords_r fl (rev (q # ps)) @ [distance_r fl (last (rev (q # ps))) p]"
    by (subst chords_r_snoc) simp
  also have "\<dots> = rev (chords_r fl (q # ps)) @ [distance_r fl q p]"
    using 3 by simp
  finally show ?case by (simp add: distance_r_commute [of p q])
qed simp_all

subsection \<open>Rounding errors\<close>

lemma fl_abs_lower: "(1 - 1 / 2 ^ 53) * \<bar>v\<bar> \<le> \<bar>fl v\<bar>"
proof (cases "0 \<le> v")
  case True
  with fl_lower [OF True] fl_nonneg [OF True] show ?thesis by simp
next
  case False
  then have v: "0 \<le> - v" by simp
  from fl_lower [OF v] fl_nonneg [OF v] False show ?thesis
    by (simp add: fl_minus)
qed

lemma square_lower:
  "(1 - 1 / 2 ^ 53) ^ 3 * (d * d) \<le> fl (fl d * fl d)"
proof -
  let ?u = "1 - 1 / 2 ^ 53 :: real"
  have u: "0 \<le> ?u" by simp
  have a: "?u * \<bar>d\<bar> \<le> \<bar>fl d\<bar>" by (rule fl_abs_lower)
  have "(?u * \<bar>d\<bar>) * (?u * \<bar>d\<bar>) \<le> \<bar>fl d\<bar> * \<bar>fl d\<bar>"
    using a u by (intro mult_mono) simp_all
  then have b: "?u ^ 2 * (d * d) \<le> fl d * fl d"
    by (simp add: power2_eq_square algebra_simps abs_mult_self_eq)
  have "?u * (?u ^ 2 * (d * d)) \<le> ?u * (fl d * fl d)"
    using b u by (intro mult_left_mono)
  also have "\<dots> \<le> fl (fl d * fl d)"
    by (rule fl_lower) simp
  finally show ?thesis by (simp add: power3_eq_cube power2_eq_square algebra_simps)
qed

lemma magnitudeSquared_r_lower:
  "(1 - 1 / 2 ^ 53) ^ 5 * magnitudeSquared (subtract p q)
     \<le> magnitudeSquared_r fl (subtract_r fl p q)"
proof -
  let ?u = "1 - 1 / 2 ^ 53 :: real"
  define x where "x = cx p - cx q"
  define y where "y = cy p - cy q"
  define z where "z = cz p - cz q"
  define X where "X = fl (fl x * fl x)"
  define Y where "Y = fl (fl y * fl y)"
  define Z where "Z = fl (fl z * fl z)"
  have u0: "0 \<le> ?u" and u1: "?u \<le> 1" by simp_all
  have X: "?u ^ 3 * (x * x) \<le> X" and Y: "?u ^ 3 * (y * y) \<le> Y" and Z: "?u ^ 3 * (z * z) \<le> Z"
    unfolding X_def Y_def Z_def by (rule square_lower)+
  have X0: "0 \<le> X" and Y0: "0 \<le> Y" and Z0: "0 \<le> Z"
    unfolding X_def Y_def Z_def by (rule fl_nonneg, simp)+
  have s1: "?u * (X + Y) \<le> fl (X + Y)"
    using X0 Y0 by (intro fl_lower) simp
  have s10: "0 \<le> fl (X + Y)"
    using X0 Y0 by (intro fl_nonneg) simp
  have s2: "?u * (fl (X + Y) + Z) \<le> fl (fl (X + Y) + Z)"
    using s10 Z0 by (intro fl_lower) simp
  have p45: "?u ^ 5 \<le> ?u ^ 4" and p34: "?u ^ 4 \<le> ?u ^ 3"
    by (rule power_decreasing; simp)+
  have "?u ^ 5 * (x * x + y * y + z * z)
      = ?u ^ 5 * (x * x + y * y) + ?u ^ 5 * (z * z)"
    by (simp add: algebra_simps)
  also have "\<dots> \<le> ?u ^ 5 * (x * x + y * y) + ?u ^ 4 * (z * z)"
    using p45 by (intro add_left_mono mult_right_mono) simp_all
  also have "\<dots> = ?u * (?u * (?u ^ 3 * (x * x) + ?u ^ 3 * (y * y)) + ?u ^ 3 * (z * z))"
    by (simp add: algebra_simps power_numeral_reduce)
  also have "\<dots> \<le> ?u * (?u * (X + Y) + Z)"
    using X Y Z u0 by (intro mult_left_mono add_mono) simp_all
  also have "\<dots> \<le> ?u * (fl (X + Y) + Z)"
    using s1 u0 by (intro mult_left_mono add_mono) simp_all
  also have "\<dots> \<le> fl (fl (X + Y) + Z)" by (rule s2)
  finally show ?thesis
    by (simp add: magnitudeSquared_r_def magnitudeSquared_def subtract_r_def subtract_def
          X_def Y_def Z_def x_def y_def z_def)
qed

lemma magnitudeSquared_nonneg: "0 \<le> magnitudeSquared c"
  by (simp add: magnitudeSquared_def)

lemma magnitudeSquared_r_nonneg: "0 \<le> magnitudeSquared_r fl c"
proof -
  have "0 \<le> fl (cx c * cx c)" "0 \<le> fl (cy c * cy c)" "0 \<le> fl (cz c * cz c)"
    by (rule fl_nonneg, simp)+
  then have "0 \<le> fl (fl (cx c * cx c) + fl (cy c * cy c))" "0 \<le> fl (cz c * cz c)"
    by (simp_all add: fl_nonneg)
  then have "0 \<le> fl (fl (fl (cx c * cx c) + fl (cy c * cy c)) + fl (cz c * cz c))"
    by (simp add: fl_nonneg)
  then show ?thesis by (simp add: magnitudeSquared_r_def)
qed

lemma distance_r_lower: "(1 - 1 / 2 ^ 53) ^ 4 * distance p q \<le> distance_r fl p q"
proof -
  define u :: real where "u = 1 - 1 / 2 ^ 53"
  let ?m = "magnitudeSquared (subtract p q)"
  let ?M = "magnitudeSquared_r fl (subtract_r fl p q)"
  have u0: "0 \<le> u" and u1: "u \<le> 1" by (simp_all add: u_def)
  have M0: "0 \<le> ?M" by (rule magnitudeSquared_r_nonneg)
  have "u ^ 6 \<le> u ^ 5" using u0 u1 by (intro power_decreasing) simp_all
  then have "u ^ 6 * ?m \<le> u ^ 5 * ?m"
    by (intro mult_right_mono magnitudeSquared_nonneg)
  also have "\<dots> \<le> ?M" unfolding u_def by (rule magnitudeSquared_r_lower)
  finally have "sqrt (u ^ 6 * ?m) \<le> sqrt ?M" by simp
  moreover have "sqrt (u ^ 6 * ?m) = u ^ 3 * sqrt ?m"
  proof -
    have "u ^ 6 = (u ^ 3)\<^sup>2" by (simp add: power_mult [symmetric])
    then have "sqrt (u ^ 6 * ?m) = sqrt ((u ^ 3)\<^sup>2) * sqrt ?m"
      by (simp only: real_sqrt_mult)
    also have "sqrt ((u ^ 3)\<^sup>2) = u ^ 3"
      using zero_le_power [OF u0, of 3] by (simp only: real_sqrt_abs abs_of_nonneg)
    finally show ?thesis .
  qed
  ultimately have "u ^ 3 * sqrt ?m \<le> sqrt ?M" by simp
  then have "u * (u ^ 3 * sqrt ?m) \<le> u * sqrt ?M"
    using u0 by (intro mult_left_mono)
  also have "\<dots> \<le> fl (sqrt ?M)"
    unfolding u_def using M0 by (intro fl_lower) simp
  finally have "u ^ 4 * sqrt ?m \<le> fl (sqrt ?M)"
    by (simp add: power_numeral_reduce algebra_simps)
  then show ?thesis
    by (simp add: distance_r_def magnitude_r_def distance_def magnitude_def u_def)
qed

lemma distance_r_nonneg: "0 \<le> distance_r fl p q"
  using magnitudeSquared_r_nonneg [of "subtract_r fl p q"]
  by (simp add: distance_r_def magnitude_r_def fl_nonneg)

lemma rounded_sum_lower:
  assumes "0 \<le> a" "\<forall>c \<in> set cs. 0 \<le> c"
  shows "(1 - 1 / 2 ^ 53) ^ length cs * (a + sum_list cs) \<le> foldl (\<lambda>acc c. fl (acc + c)) a cs"
  using assms
proof (induction cs arbitrary: a)
  case Nil
  then show ?case by simp
next
  case (Cons c cs)
  let ?u = "1 - 1 / 2 ^ 53 :: real"
  have u0: "0 \<le> ?u" and u1: "?u \<le> 1" by simp_all
  have c: "0 \<le> c" and cs: "\<forall>c \<in> set cs. 0 \<le> c" using Cons.prems(2) by simp_all
  have s: "0 \<le> sum_list cs" using cs by (intro sum_list_nonneg) simp
  have ac: "0 \<le> a + c" using Cons.prems(1) c by simp
  have f: "?u * (a + c) \<le> fl (a + c)" by (rule fl_lower [OF ac])
  have f0: "0 \<le> fl (a + c)" by (rule fl_nonneg [OF ac])
  have "?u ^ length (c # cs) * (a + sum_list (c # cs))
      = ?u ^ length cs * (?u * (a + c) + ?u * sum_list cs)"
    by (simp add: algebra_simps)
  also have "\<dots> \<le> ?u ^ length cs * (fl (a + c) + sum_list cs)"
  proof (intro mult_left_mono add_mono f)
    show "?u * sum_list cs \<le> sum_list cs"
      using s u1 by (simp add: mult_left_le_one_le)
    show "0 \<le> ?u ^ length cs" by simp
  qed
  also have "\<dots> \<le> foldl (\<lambda>acc c. fl (acc + c)) (fl (a + c)) cs"
    by (rule Cons.IH [OF f0 cs])
  finally show ?case by simp
qed

lemma sum_list_chords_lower:
  "(1 - 1 / 2 ^ 53) ^ 4 * pathLength ps \<le> sum_list (chords_r fl ps)"
proof (induction ps rule: pathLength.induct)
  case (3 p q ps)
  have "(1 - 1 / 2 ^ 53) ^ 4 * pathLength (p # q # ps)
      = (1 - 1 / 2 ^ 53) ^ 4 * distance p q + (1 - 1 / 2 ^ 53) ^ 4 * pathLength (q # ps)"
    by (simp add: algebra_simps)
  also have "\<dots> \<le> distance_r fl p q + sum_list (chords_r fl (q # ps))"
    by (intro add_mono distance_r_lower 3)
  finally show ?case by simp
qed simp_all

lemma chords_r_nonneg: "\<forall>c \<in> set (chords_r fl ps). 0 \<le> c"
  by (induction fl ps rule: chords_r.induct) (simp_all add: distance_r_nonneg)

lemma measureCurveDistance_r_lower:
  "(1 - 1 / 2 ^ 53) ^ (length ps + 3) * pathLength ps \<le> measureCurveDistance_r fl ps"
proof (cases "ps = []")
  case True
  then show ?thesis by (simp add: measureCurveDistance_r_def)
next
  case False
  define u :: real where "u = 1 - 1 / 2 ^ 53"
  have u0: "0 \<le> u" by (simp add: u_def)
  have l: "length ps + 3 = length ps - 1 + 4" using False by (cases ps) simp_all
  have "u ^ (length ps + 3) * pathLength ps = u ^ (length ps - 1) * (u ^ 4 * pathLength ps)"
    by (simp only: l power_add mult.assoc)
  also have "\<dots> \<le> u ^ (length ps - 1) * sum_list (chords_r fl ps)"
    unfolding u_def by (intro mult_left_mono sum_list_chords_lower) simp
  also have "\<dots> = u ^ length (chords_r fl ps) * (0 + sum_list (chords_r fl ps))"
    by (simp add: length_chords_r)
  also have "\<dots> \<le> foldl (\<lambda>acc c. fl (acc + c)) 0 (chords_r fl ps)"
    unfolding u_def by (rule rounded_sum_lower) (simp_all add: chords_r_nonneg)
  finally show ?thesis by (simp add: measureCurveDistance_r_chords u_def)
qed

lemma measureCurveDistance_r_nonneg: "0 \<le> measureCurveDistance_r fl ps"
proof -
  have "0 \<le> (1 - 1 / 2 ^ 53) ^ (length ps + 3) * pathLength ps"
    by (intro mult_nonneg_nonneg pathLength_nonneg) simp
  with measureCurveDistance_r_lower [of ps] show ?thesis by linarith
qed

subsection \<open>The rounded sampler\<close>

lemma new_CatmullRomSpline_r_three:
  "new_CatmullRomSpline_r rnd [0, 1/2, 1] [a, b, c] =
     Inr \<lparr> spline_times = [0, 1/2, 1], spline_points = [a, b, c],
           firstTangent =
             Some (multiplyByScalar_r rnd
                     (subtract_r rnd (subtract_r rnd (multiplyByScalar_r rnd b 2) c) a) (1/2)),
           lastTangent =
             Some (multiplyByScalar_r rnd
                     (add_r rnd (subtract_r rnd c (multiplyByScalar_r rnd b 2)) a) (1/2)) \<rparr>"
  by (simp add: new_CatmullRomSpline_r_def)

lemma evaluate_r_three:
  assumes "new_CatmullRomSpline_r rnd [0, 1/2, 1] [a, b, c] = Inr spline"
  shows "evaluate_r rnd spline t
           = (if t < 0 \<or> 1 < t then Inl TimeOutOfRange else Inr (curvePoint_r rnd a b c t))"
proof -
  have s: "spline = \<lparr> spline_times = [0, 1/2, 1], spline_points = [a, b, c],
           firstTangent =
             Some (multiplyByScalar_r rnd
                     (subtract_r rnd (subtract_r rnd (multiplyByScalar_r rnd b 2) c) a) (1/2)),
           lastTangent =
             Some (multiplyByScalar_r rnd
                     (add_r rnd (subtract_r rnd c (multiplyByScalar_r rnd b 2)) a) (1/2)) \<rparr>"
    using assms by (simp add: new_CatmullRomSpline_r_three)
  show ?thesis
    by (simp add: s evaluate_r_def curvePoint_r_def Let_def)
qed

lemma createCurvePoints_r_samples:
  assumes "\<And>v. 0 \<le> v \<Longrightarrow> v \<le> 1 \<Longrightarrow> 0 \<le> rnd v \<and> rnd v \<le> 1"
  shows "createCurvePoints_r rnd a b c n = Inr (samples_r rnd a b c n)"
proof -
  obtain spline where s: "new_CatmullRomSpline_r rnd [0, 1/2, 1] [a, b, c] = Inr spline"
    by (simp add: new_CatmullRomSpline_r_three)
  have "collect (map (\<lambda>i. evaluate_r rnd spline (rnd (real i / real_of_int n))) [0..<nat n])
      = Inr (map (\<lambda>i. curvePoint_r rnd a b c (rnd (real i / real_of_int n))) [0..<nat n])"
  proof (rule collect_map_Inr)
    fix i assume "i \<in> set [0..<nat n]"
    then have i: "i < nat n" by simp
    then have n: "1 \<le> n" by simp
    have "0 \<le> real i / real_of_int n" "real i / real_of_int n \<le> 1"
      using sample_time_range [OF n i] by simp_all
    then have "0 \<le> rnd (real i / real_of_int n) \<and> rnd (real i / real_of_int n) \<le> 1"
      by (rule assms)
    then show "evaluate_r rnd spline (rnd (real i / real_of_int n))
        = Inr (curvePoint_r rnd a b c (rnd (real i / real_of_int n)))"
      by (simp add: evaluate_r_three [OF s])
  qed
  then show ?thesis
    using s by (simp add: createCurvePoints_r_def Array_from_def samples_r_def)
qed

lemma createCurvePoints_r_fl: "createCurvePoints_r fl a b c n = Inr (samples_r fl a b c n)"
  by (rule createCurvePoints_r_samples) (simp add: fl_nonneg fl_le_1)

lemma length_samples_r: "length (samples_r rnd a b c n) = nat n"
  by (simp add: samples_r_def)

text \<open>Without rounding the rounded model is the exact one.\<close>

lemma hermiteCoefficients_r_id: "hermiteCoefficients_r id u = hermiteCoefficients u"
  by (simp add: hermiteCoefficients_r_def hermiteCoefficients_def timeVec_def
        multiplyByVector_row_def Let_def)

lemma curvePoint_r_id: "curvePoint_r id a b c t = curvePoint a b c t"
  by (cases a; cases b; cases c)
     (simp add: curvePoint_r_def curvePoint_def firstSegment_def lastSegment_def
        hermiteCoefficients_r_id blend_r_def blend_def add_r_def add_def
        multiplyByScalar_r_def multiplyByScalar_def subtract_r_def subtract_def
        split: prod.split)

lemma createCurvePoints_r_id: "createCurvePoints_r id a b c n = createCurvePoints a b c n"
proof -
  have "createCurvePoints_r id a b c n = Inr (samples_r id a b c n)"
    by (rule createCurvePoints_r_samples) simp
  then show ?thesis
    by (simp add: samples_r_def curvePoint_r_id createCurvePoints_Inr)
qed

lemma distance_r_id: "distance_r id p q = distance p q"
  by (simp add: distance_r_def magnitude_r_def magnitudeSquared_r_def subtract_r_def
        distance_def magnitude_def magnitudeSquared_def subtract_def)

lemma measureCurveDistance_r_id: "measureCurveDistance_r id ps = measureCurveDistance ps"
  unfolding measureCurveDistance_r_def measureCurveDistance_def distance_r_id id_apply ..

lemma chord_le_pathLength: "ps \<noteq> [] \<Longrightarrow> distance (hd ps) (last ps) \<le> pathLength ps"
proof (induction ps rule: pathLength.induct)
  case (3 p q ps)
  have "distance p (last (q # ps)) \<le> distance p q + distance q (last (q # ps))"
    by (rule distance_triangle)
  also have "\<dots> \<le> distance p q + pathLength (q # ps)"
    using 3 by simp
  finally show ?case by simp
qed (simp_all add: distance_self)

subsection \<open>Evaluating roundings\<close>

lemma roundTiesToEven_unique: "\<bar>m - of_int M\<bar> < 1/2 \<Longrightarrow> roundTiesToEven m = M"
proof -
  assume a: "\<bar>m - of_int M\<bar> < 1/2"
  have "\<bar>of_int (roundTiesToEven m) - m\<bar> \<le> 1/2" by (rule roundTiesToEven_near)
  with a have "\<bar>real_of_int (roundTiesToEven m) - of_int M\<bar> < 1" by linarith
  then have "\<bar>real_of_int (roundTiesToEven m - M)\<bar> < 1" by simp
  then have "\<bar>roundTiesToEven m - M\<bar> < 1" by linarith
  then show ?thesis by simp
qed

lemma fl_sqrt_eval:
  fixes k :: nat and M :: int
  assumes "2 ^ 52 < M" "M < 2 ^ 53"
    and "((of_int M - 1/2) / 2 ^ k)\<^sup>2 < s" "s < ((of_int M + 1/2) / 2 ^ k)\<^sup>2"
  shows "fl (sqrt s) = of_int M / 2 ^ k"
proof -
  have M1: "(2 ^ 52 :: real) + 1 \<le> of_int M"
  proof -
    from assms(1) have "(2 ^ 52 :: int) + 1 \<le> M" by simp
    then have "real_of_int (2 ^ 52 + 1) \<le> of_int M" by (simp only: of_int_le_iff)
    then show ?thesis by simp
  qed
  have M2: "real_of_int M + 1 \<le> 2 ^ 53"
  proof -
    from assms(2) have "M + 1 \<le> (2 ^ 53 :: int)" by simp
    then have "real_of_int (M + 1) \<le> of_int (2 ^ 53)" by (simp only: of_int_le_iff)
    then show ?thesis by simp
  qed
  have lo0: "0 \<le> (of_int M - 1/2) / (2 ^ k :: real)" using M1 by simp
  have hi0: "0 \<le> (of_int M + 1/2) / (2 ^ k :: real)" using M1 by simp
  have lo: "(of_int M - 1/2) / 2 ^ k < sqrt s"
    using assms(3) by (rule real_less_rsqrt)
  have hi: "sqrt s < (of_int M + 1/2) / 2 ^ k"
    using hi0 assms(4) by (rule real_less_lsqrt)
  have lo': "of_int M - 1/2 < sqrt s * 2 ^ k" using lo by (simp add: field_simps)
  have hi': "sqrt s * 2 ^ k < of_int M + 1/2" using hi by (simp add: field_simps)
  have pos: "0 < sqrt s" using lo lo0 by linarith
  have "\<bar>sqrt s * 2 ^ k - of_int M\<bar> < 1/2" using lo' hi' by linarith
  then have r: "roundTiesToEven (sqrt s * 2 ^ k) = M" by (rule roundTiesToEven_unique)
  have "2 ^ 52 \<le> \<bar>sqrt s\<bar> * 2 ^ k" "\<bar>sqrt s\<bar> * 2 ^ k < 2 ^ 53"
    using lo' hi' M1 M2 pos by simp_all
  then have "fl (sqrt s) = of_int (roundTiesToEven (sqrt s * 2 ^ k)) / 2 ^ k"
    by (rule fl_eval)
  then show ?thesis by (simp only: r)
qed

lemmas fl_evals =
  fl_eval [where k = 50] fl_eval [where k = 51] fl_eval [where k = 52] fl_eval [where k = 53]
  fl_eval [where k = 54] fl_eval [where k = 55] fl_eval [where k = 56] fl_eval [where k = 57]
  fl_eval [where k = 58] fl_eval [where k = 59] fl_eval [where k = 60] fl_eval [where k = 61]
  fl_eval [where k = 62] fl_eval [where k = 63]

subsection \<open>Four points a tenth, two tenths and three tenths apart\<close>

lemma magnitudeSquared_tenths:
  "magnitudeSquared_r fl
     (subtract_r fl (Cartesian3 0 0 0) (Cartesian3 (3602879701896397 / 36028797018963968) 0 0))
     = 1441151880758559 / 144115188075855872"
  "magnitudeSquared_r fl
     (subtract_r fl (Cartesian3 (3602879701896397 / 36028797018963968) 0 0)
        (Cartesian3 (3602879701896397 / 36028797018963968)
           (3602879701896397 / 18014398509481984) 0))
     = 1441151880758559 / 36028797018963968"
  "magnitudeSquared_r fl
     (subtract_r fl
        (Cartesian3 (3602879701896397 / 36028797018963968)
           (3602879701896397 / 18014398509481984) 0)
        (Cartesian3 (3602879701896397 / 36028797018963968)
           (3602879701896397 / 18014398509481984) (5404319552844595 / 18014398509481984)))
     = 3242591731706757 / 36028797018963968"
  unfolding magnitudeSquared_r_def subtract_r_def Cartesian3.sel
  by (simp_all add: fl_0 fl_evals roundTiesToEven_def)

lemma sqrt_tenths:
  "fl (sqrt (1441151880758559 / 144115188075855872)) = 3602879701896397 / 36028797018963968"
  "fl (sqrt (1441151880758559 / 36028797018963968)) = 3602879701896397 / 18014398509481984"
  "fl (sqrt (3242591731706757 / 36028797018963968)) = 5404319552844595 / 18014398509481984"
  using fl_sqrt_eval [where k = 56 and M = 7205759403792794
                        and s = "1441151880758559 / 144115188075855872"]
        fl_sqrt_eval [where k = 55 and M = 7205759403792794
                        and s = "1441151880758559 / 36028797018963968"]
        fl_sqrt_eval [where k = 54 and M = 5404319552844595
                        and s = "3242591731706757 / 36028797018963968"]
  by (simp_all add: power2_eq_square)

lemma chords_tenths:
  "chords_r fl
     [Cartesian3 0 0 0,
      Cartesian3 (3602879701896397 / 36028797018963968) 0 0,
      Cartesian3 (3602879701896397 / 36028797018963968) (3602879701896397 / 18014398509481984) 0,
      Cartesian3 (3602879701896397 / 36028797018963968) (3602879701896397 / 18014398509481984)
        (5404319552844595 / 18014398509481984)]
   = [3602879701896397 / 36028797018963968, 3602879701896397 / 18014398509481984,
      5404319552844595 / 18014398509481984]"
  by (simp only: chords_r.simps distance_r_def magnitude_r_def magnitudeSquared_tenths
        sqrt_tenths)

lemma sums_tenths:
  "foldl (\<lambda>acc c. fl (acc + c)) 0
     [3602879701896397 / 36028797018963968, 3602879701896397 / 18014398509481984,
      5404319552844595 / 18014398509481984]
   = 1351079888211149 / 2251799813685248"
  "foldl (\<lambda>acc c. fl (acc + c)) 0
     (rev [3602879701896397 / 36028797018963968, 3602879701896397 / 18014398509481984,
           5404319552844595 / 18014398509481984])
   = 5404319552844595 / 9007199254740992"
  unfolding foldl.simps rev.simps append.simps
  by (simp_all add: fl_evals roundTiesToEven_def)

subsection \<open>Short lists and single chords\<close>

lemma measureCurveDistance_r_rev_short:
  assumes "length ps \<le> 3"
  shows "measureCurveDistance_r fl (rev ps) = measureCurveDistance_r fl ps"
proof -
  have idem: "fl (distance_r fl p q) = distance_r fl p q" for p q
    by (simp add: distance_r_def magnitude_r_def fl_idem)
  consider "ps = []" | p where "ps = [p]" | p q where "ps = [p, q]"
    | p q r where "ps = [p, q, r]"
    using assms by (cases ps; cases "tl ps"; cases "tl (tl ps)"; cases "tl (tl (tl ps))") auto
  then show ?thesis
  proof cases
    case 4
    have "fl (distance_r fl r q + distance_r fl q p) = fl (distance_r fl p q + distance_r fl q r)"
      by (simp add: distance_r_commute [of r q] distance_r_commute [of q p] add.commute)
    then show ?thesis
      by (simp add: 4 measureCurveDistance_r_chords idem)
  qed (simp_all add: measureCurveDistance_r_chords distance_r_commute)
qed

lemma chord_nth_le_pathLength:
  assumes "i \<le> j" "j < length ps"
  shows "distance (ps ! i) (ps ! j) \<le> pathLength ps"
proof -
  let ?h = "\<lambda>k. ps ! k"
  let ?S = "\<lambda>m. \<Sum>k<m. distance (?h k) (?h (Suc k))"
  have "distance (?h i) (?h j) \<le> ?S j - ?S i" by (rule chord_le_path [OF assms(1)])
  also have "\<dots> \<le> ?S j" by (simp add: sum_nonneg distance_nonneg)
  also have "\<dots> \<le> ?S (length ps - 1)" using assms(2) by (intro path_mono) simp
  also have "\<dots> = measureCurveDistance (map ?h [0..<length ps])"
    by (rule measureCurveDistance_map_upt [symmetric])
  also have "\<dots> = pathLength ps"
    by (simp add: map_nth measureCurveDistance_pathLength)
  finally show ?thesis .
qed

lemma distance_z_axis: "distance (Cartesian3 x y z) (Cartesian3 x y z') = \<bar>z - z'\<bar>"
proof -
  have "distance (Cartesian3 x y z) (Cartesian3 x y z') = sqrt ((z - z')\<^sup>2)"
    by (simp add: distance_def magnitude_def magnitudeSquared_def subtract_def power2_eq_square)
  then show ?thesis by simp
qed

subsection \<open>The point (1, 2, 3) three times\<close>

lemma sample_time_27: "fl (27 / 50) = 607985949695017 / 1125899906842624"
  by (simp add: fl_evals roundTiesToEven_def)

lemma u_27:
  "fl (fl (607985949695017 / 1125899906842624 - 1/2) / fl (1 - 1/2))
     = 45035996273705 / 562949953421312"
  by (simp add: fl_evals roundTiesToEven_def)

lemma timeVec_27:
  "timeVec fl (45035996273705 / 562949953421312)
     = (2361183241434829 / 4611686018427387904, 3689348814741917 / 576460752303423488,
        45035996273705 / 562949953421312, 1)"
  by (simp only: timeVec_def Let_def) (simp add: fl_evals roundTiesToEven_def)

lemma coefficients_27:
  "multiplyByVector_row fl (2, - 3, 0, 1)
     (2361183241434829 / 4611686018427387904, 3689348814741917 / 576460752303423488,
      45035996273705 / 562949953421312, 1)
   = 8843484401086819 / 9007199254740992"
  "multiplyByVector_row fl (- 2, 3, 0, 0)
     (2361183241434829 / 4611686018427387904, 3689348814741917 / 576460752303423488,
      45035996273705 / 562949953421312, 1)
   = 2619437658466761 / 144115188075855872"
  by (simp_all only: multiplyByVector_row_def prod.case)
     (simp_all add: fl_0 fl_evals roundTiesToEven_def)

lemma tangents_123:
  "multiplyByScalar_r fl (subtract_r fl (Cartesian3 1 2 3) (Cartesian3 1 2 3)) (1/2)
     = Cartesian3 0 0 0"
  "multiplyByScalar_r fl
     (add_r fl (subtract_r fl (Cartesian3 1 2 3) (multiplyByScalar_r fl (Cartesian3 1 2 3) 2))
        (Cartesian3 1 2 3)) (1/2)
     = Cartesian3 0 0 0"
  "multiplyByScalar_r fl
     (subtract_r fl (subtract_r fl (multiplyByScalar_r fl (Cartesian3 1 2 3) 2) (Cartesian3 1 2 3))
        (Cartesian3 1 2 3)) (1/2)
     = Cartesian3 0 0 0"
  unfolding multiplyByScalar_r_def subtract_r_def add_r_def Cartesian3.sel
  by (simp_all add: fl_0 fl_evals roundTiesToEven_def)

lemma blend_27:
  "blend_r fl (Cartesian3 1 2 3) (Cartesian3 1 2 3) (Cartesian3 0 0 0) (Cartesian3 0 0 0)
     (8843484401086819 / 9007199254740992, 2619437658466761 / 144115188075855872, c2, c3)
   = Cartesian3 1 2 (3 - 1 / 2 ^ 51)"
  unfolding blend_r_def prod.case multiplyByScalar_r_def add_r_def Cartesian3.sel
  by (simp add: fl_0 fl_evals roundTiesToEven_def)

lemma sample_27:
  "curvePoint_r fl (Cartesian3 1 2 3) (Cartesian3 1 2 3) (Cartesian3 1 2 3)
      (607985949695017 / 1125899906842624)
    = Cartesian3 1 2 (3 - 1 / 2 ^ 51)"
proof -
  have t: "\<not> (607985949695017 / 1125899906842624 < (1/2 :: real))" by simp
  show ?thesis
    unfolding curvePoint_r_def if_not_P [OF t] u_27 tangents_123 hermiteCoefficients_r_def
      timeVec_27 coefficients_27 Let_def
    by (rule blend_27)
qed

lemma coefficients_0:
  "hermiteCoefficients_r fl 0 = (1, 0, 0, 0)"
  unfolding hermiteCoefficients_r_def timeVec_def Let_def multiplyByVector_row_def prod.case
  by (simp add: fl_0 fl_evals roundTiesToEven_def)

lemma blend_0:
  "blend_r fl (Cartesian3 1 2 3) (Cartesian3 1 2 3) (Cartesian3 0 0 0) (Cartesian3 0 0 0)
     (1, 0, 0, 0)
   = Cartesian3 1 2 3"
  unfolding blend_r_def prod.case multiplyByScalar_r_def add_r_def Cartesian3.sel
  by (simp add: fl_0 fl_evals roundTiesToEven_def)

lemma sample_0:
  "curvePoint_r fl (Cartesian3 1 2 3) (Cartesian3 1 2 3) (Cartesian3 1 2 3) 0 = Cartesian3 1 2 3"
proof -
  have t: "(0::real) < 1/2" by simp
  have u: "fl (fl (0 - 0) / fl (1/2 - 0)) = 0" by (simp add: fl_0)
  show ?thesis
    unfolding curvePoint_r_def if_P [OF t] u tangents_123 coefficients_0
    by (rule blend_0)
qed

lemma samples_123:
  "samples_r fl (Cartesian3 1 2 3) (Cartesian3 1 2 3) (Cartesian3 1 2 3) 50 ! 0 = Cartesian3 1 2 3"
  "samples_r fl (Cartesian3 1 2 3) (Cartesian3 1 2 3) (Cartesian3 1 2 3) 50 ! 27
     = Cartesian3 1 2 (3 - 1 / 2 ^ 51)"
proof -
  have "samples_r fl (Cartesian3 1 2 3) (Cartesian3 1 2 3) (Cartesian3 1 2 3) 50 ! 0
      = curvePoint_r fl (Cartesian3 1 2 3) (Cartesian3 1 2 3) (Cartesian3 1 2 3) (fl (0 / 50))"
    by (simp add: samples_r_def)
  then show "samples_r fl (Cartesian3 1 2 3) (Cartesian3 1 2 3) (Cartesian3 1 2 3) 50 ! 0
      = Cartesian3 1 2 3"
    by (simp add: fl_0 sample_0)
  have "samples_r fl (Cartesian3 1 2 3) (Cartesian3 1 2 3) (Cartesian3 1 2 3) 50 ! 27
      = curvePoint_r fl (Cartesian3 1 2 3) (Cartesian3 1 2 3) (Cartesian3 1 2 3) (fl (27 / 50))"
    by (simp add: samples_r_def)
  then show "samples_r fl (Cartesian3 1 2 3) (Cartesian3 1 2 3) (Cartesian3 1 2 3) 50 ! 27
      = Cartesian3 1 2 (3 - 1 / 2 ^ 51)"
    by (simp only: sample_time_27 sample_27)
qed

lemma measured_123_positive:
  "0 < measureCurveDistance_r fl
         (samples_r fl (Cartesian3 1 2 3) (Cartesian3 1 2 3) (Cartesian3 1 2 3) 50)"
proof -
  let ?ps = "samples_r fl (Cartesian3 1 2 3) (Cartesian3 1 2 3) (Cartesian3 1 2 3) 50"
  have "distance (?ps ! 0) (?ps ! 27) = 1 / 2 ^ 51"
    by (simp only: samples_123 distance_z_axis) simp
  moreover have "distance (?ps ! 0) (?ps ! 27) \<le> pathLength ?ps"
    by (rule chord_nth_le_pathLength) (simp_all add: length_samples_r)
  ultimately have "0 < pathLength ?ps" by simp
  then have "0 < (1 - 1 / 2 ^ 53) ^ (length ?ps + 3) * pathLength ?ps"
    by (intro mult_pos_pos zero_less_power) simp_all
  with measureCurveDistance_r_lower [of ?ps] show ?thesis by linarith
qed

lemma samples_r_id:
  "samples_r id a b c n = map (\<lambda>i. curvePoint a b c (real i / real_of_int n)) [0..<nat n]"
  by (simp add: samples_r_def curvePoint_r_id)

subsection \<open>Upper bounds on the rounding errors\<close>

lemma fl_upper: "0 \<le> v \<Longrightarrow> fl v \<le> (1 + 1 / 2 ^ 53) * v"
proof -
  assume v: "0 \<le> v"
  define d where "d = v / 2 ^ 53"
  have "\<bar>fl v - v\<bar> \<le> d" using fl_error [of v] v by (simp add: d_def)
  then have "fl v \<le> v + d" by linarith
  moreover have "(1 + 1 / 2 ^ 53) * v = v + d" by (simp add: d_def algebra_simps)
  ultimately show ?thesis by simp
qed

lemma fl_abs_upper: "\<bar>fl v\<bar> \<le> (1 + 1 / 2 ^ 53) * \<bar>v\<bar>"
proof (cases "0 \<le> v")
  case True
  with fl_upper [OF True] fl_nonneg [OF True] show ?thesis by simp
next
  case False
  then have v: "0 \<le> - v" by simp
  from fl_upper [OF v] fl_nonneg [OF v] False show ?thesis
    by (simp add: fl_minus)
qed

lemma square_upper: "fl (fl d * fl d) \<le> (1 + 1 / 2 ^ 53) ^ 3 * (d * d)"
proof -
  let ?u = "1 + 1 / 2 ^ 53 :: real"
  have u: "0 \<le> ?u" by simp
  have a: "\<bar>fl d\<bar> \<le> ?u * \<bar>d\<bar>" by (rule fl_abs_upper)
  have "\<bar>fl d\<bar> * \<bar>fl d\<bar> \<le> (?u * \<bar>d\<bar>) * (?u * \<bar>d\<bar>)"
    using a by (intro mult_mono) simp_all
  then have b: "fl d * fl d \<le> ?u ^ 2 * (d * d)"
    by (simp add: power2_eq_square algebra_simps abs_mult_self_eq)
  have "fl (fl d * fl d) \<le> ?u * (fl d * fl d)"
    by (intro fl_upper) simp
  also have "\<dots> \<le> ?u * (?u ^ 2 * (d * d))"
    using b u by (intro mult_left_mono)
  finally show ?thesis by (simp add: power_numeral_reduce algebra_simps)
qed

lemma magnitudeSquared_r_upper:
  "magnitudeSquared_r fl (subtract_r fl p q)
     \<le> (1 + 1 / 2 ^ 53) ^ 5 * magnitudeSquared (subtract p q)"
proof -
  let ?u = "1 + 1 / 2 ^ 53 :: real"
  define x where "x = cx p - cx q"
  define y where "y = cy p - cy q"
  define z where "z = cz p - cz q"
  define X where "X = fl (fl x * fl x)"
  define Y where "Y = fl (fl y * fl y)"
  define Z where "Z = fl (fl z * fl z)"
  have u0: "0 \<le> ?u" and u1: "1 \<le> ?u" by simp_all
  have X: "X \<le> ?u ^ 3 * (x * x)" and Y: "Y \<le> ?u ^ 3 * (y * y)" and Z: "Z \<le> ?u ^ 3 * (z * z)"
    unfolding X_def Y_def Z_def by (rule square_upper)+
  have X0: "0 \<le> X" and Y0: "0 \<le> Y" and Z0: "0 \<le> Z"
    unfolding X_def Y_def Z_def by (rule fl_nonneg, simp)+
  have s1: "fl (X + Y) \<le> ?u * (X + Y)"
    using X0 Y0 by (intro fl_upper) simp
  have s10: "0 \<le> fl (X + Y)"
    using X0 Y0 by (intro fl_nonneg) simp
  have s2: "fl (fl (X + Y) + Z) \<le> ?u * (fl (X + Y) + Z)"
    using s10 Z0 by (intro fl_upper) simp
  have p45: "?u ^ 4 \<le> ?u ^ 5"
    by (rule power_increasing; simp)
  have "fl (fl (X + Y) + Z) \<le> ?u * (fl (X + Y) + Z)" by (rule s2)
  also have "\<dots> \<le> ?u * (?u * (X + Y) + Z)"
    using s1 u0 by (intro mult_left_mono add_mono) simp_all
  also have "\<dots> \<le> ?u * (?u * (?u ^ 3 * (x * x) + ?u ^ 3 * (y * y)) + ?u ^ 3 * (z * z))"
    using X Y Z u0 by (intro mult_left_mono add_mono) simp_all
  also have "\<dots> = ?u ^ 5 * (x * x + y * y) + ?u ^ 4 * (z * z)"
    by (simp add: algebra_simps power_numeral_reduce)
  also have "\<dots> \<le> ?u ^ 5 * (x * x + y * y) + ?u ^ 5 * (z * z)"
    using p45 by (intro add_left_mono mult_right_mono) simp_all
  also have "\<dots> = ?u ^ 5 * (x * x + y * y + z * z)"
    by (simp add: algebra_simps)
  finally show ?thesis
    by (simp add: magnitudeSquared_r_def magnitudeSquared_def subtract_r_def subtract_def
          X_def Y_def Z_def x_def y_def z_def)
qed

lemma distance_r_upper: "distance_r fl p q \<le> (1 + 1 / 2 ^ 53) ^ 4 * distance p q"
proof -
  define u :: real where "u = 1 + 1 / 2 ^ 53"
  let ?m = "magnitudeSquared (subtract p q)"
  let ?M = "magnitudeSquared_r fl (subtract_r fl p q)"
  have u0: "0 \<le> u" and u1: "1 \<le> u" by (simp_all add: u_def)
  have M0: "0 \<le> ?M" by (rule magnitudeSquared_r_nonneg)
  have "?M \<le> u ^ 5 * ?m" unfolding u_def by (rule magnitudeSquared_r_upper)
  also have "\<dots> \<le> u ^ 6 * ?m"
    using u1 by (intro mult_right_mono magnitudeSquared_nonneg power_increasing) simp_all
  finally have "sqrt ?M \<le> sqrt (u ^ 6 * ?m)" by simp
  moreover have "sqrt (u ^ 6 * ?m) = u ^ 3 * sqrt ?m"
  proof -
    have "u ^ 6 = (u ^ 3)\<^sup>2" by (simp add: power_mult [symmetric])
    then have "sqrt (u ^ 6 * ?m) = sqrt ((u ^ 3)\<^sup>2) * sqrt ?m"
      by (simp only: real_sqrt_mult)
    also have "sqrt ((u ^ 3)\<^sup>2) = u ^ 3"
      using zero_le_power [OF u0, of 3] by (simp only: real_sqrt_abs abs_of_nonneg)
    finally show ?thesis .
  qed
  ultimately have s: "sqrt ?M \<le> u ^ 3 * sqrt ?m" by simp
  have "fl (sqrt ?M) \<le> u * sqrt ?M"
    unfolding u_def using M0 by (intro fl_upper) simp
  also have "\<dots> \<le> u * (u ^ 3 * sqrt ?m)"
    using u0 s by (intro mult_left_mono)
  finally have "fl (sqrt ?M) \<le> u ^ 4 * sqrt ?m"
    by (simp add: power_numeral_reduce algebra_simps)
  then show ?thesis
    by (simp add: distance_r_def magnitude_r_def distance_def magnitude_def u_def)
qed

lemma rounded_sum_upper:
  assumes "0 \<le> a" "\<forall>c \<in> set cs. 0 \<le> c"
  shows "foldl (\<lambda>acc c. fl (acc + c)) a cs \<le> (1 + 1 / 2 ^ 53) ^ length cs * (a + sum_list cs)"
  using assms
proof (induction cs arbitrary: a)
  case Nil
  then show ?case by simp
next
  case (Cons c cs)
  let ?u = "1 + 1 / 2 ^ 53 :: real"
  have u0: "0 \<le> ?u" and u1: "1 \<le> ?u" by simp_all
  have c: "0 \<le> c" and cs: "\<forall>c \<in> set cs. 0 \<le> c" using Cons.prems(2) by simp_all
  have s: "0 \<le> sum_list cs" using cs by (intro sum_list_nonneg) simp
  have ac: "0 \<le> a + c" using Cons.prems(1) c by simp
  have f: "fl (a + c) \<le> ?u * (a + c)" by (rule fl_upper [OF ac])
  have f0: "0 \<le> fl (a + c)" by (rule fl_nonneg [OF ac])
  have "foldl (\<lambda>acc c. fl (acc + c)) (fl (a + c)) cs
      \<le> ?u ^ length cs * (fl (a + c) + sum_list cs)"
    by (rule Cons.IH [OF f0 cs])
  also have "\<dots> \<le> ?u ^ length cs * (?u * (a + c) + ?u * sum_list cs)"
  proof (intro mult_left_mono add_mono f)
    show "sum_list cs \<le> ?u * sum_list cs"
      using s u1 by (simp add: mult_le_cancel_right1)
    show "0 \<le> ?u ^ length cs" by simp
  qed
  also have "\<dots> = ?u ^ length (c # cs) * (a + sum_list (c # cs))"
    by (simp add: algebra_simps)
  finally show ?case by simp
qed

lemma sum_list_chords_upper:
  "sum_list (chords_r fl ps) \<le> (1 + 1 / 2 ^ 53) ^ 4 * pathLength ps"
proof (induction ps rule: pathLength.induct)
  case (3 p q ps)
  have "distance_r fl p q + sum_list (chords_r fl (q # ps))
      \<le> (1 + 1 / 2 ^ 53) ^ 4 * distance p q + (1 + 1 / 2 ^ 53) ^ 4 * pathLength (q # ps)"
    by (intro add_mono distance_r_upper 3)
  also have "\<dots> = (1 + 1 / 2 ^ 53) ^ 4 * pathLength (p # q # ps)"
    by (simp add: algebra_simps)
  finally show ?case by simp
qed simp_all

lemma measureCurveDistance_r_upper:
  "measureCurveDistance_r fl ps \<le> (1 + 1 / 2 ^ 53) ^ (length ps + 3) * pathLength ps"
proof (cases "ps = []")
  case True
  then show ?thesis by (simp add: measureCurveDistance_r_def)
next
  case False
  define u :: real where "u = 1 + 1 / 2 ^ 53"
  have u0: "0 \<le> u" by (simp add: u_def)
  have l: "length ps + 3 = length ps - 1 + 4" using False by (cases ps) simp_all
  have "foldl (\<lambda>acc c. fl (acc + c)) 0 (chords_r fl ps)
      \<le> u ^ length (chords_r fl ps) * (0 + sum_list (chords_r fl ps))"
    unfolding u_def by (rule rounded_sum_upper) (simp_all add: chords_r_nonneg)
  also have "\<dots> = u ^ (length ps - 1) * sum_list (chords_r fl ps)"
    by (simp add: length_chords_r)
  also have "\<dots> \<le> u ^ (length ps - 1) * (u ^ 4 * pathLength ps)"
    unfolding u_def by (intro mult_left_mono sum_list_chords_upper) simp
  also have "\<dots> = u ^ (length ps + 3) * pathLength ps"
    by (simp only: l power_add mult.assoc)
  finally show ?thesis by (simp add: measureCurveDistance_r_chords u_def)
qed

subsection \<open>Samples of a coincident triple\<close>

lemma double_exponent_twice:
  assumes "v \<noteq> 0"
  shows "double_exponent (2 * v) = double_exponent v + 1"
proof (rule double_exponent_eq)
  let ?e = "of_int (double_exponent v) :: real"
  show "2 * v \<noteq> 0" using assms by simp
  have a: "2 powr (of_int (double_exponent v + 1) + 52) = 2 * 2 powr (?e + 52)"
    by (simp add: powr_add)
  have b: "2 powr (of_int (double_exponent v + 1) + 53) = 2 * 2 powr (?e + 53)"
    by (simp add: powr_add)
  have "2 * 2 powr (?e + 52) \<le> 2 * \<bar>v\<bar>"
    using double_exponent_bounds(1) [OF assms] by simp
  then show "2 powr (of_int (double_exponent v + 1) + 52) \<le> \<bar>2 * v\<bar>"
    by (simp only: a abs_mult abs_numeral)
  have "2 * \<bar>v\<bar> < 2 * 2 powr (?e + 53)"
    using double_exponent_bounds(2) [OF assms] by simp
  then show "\<bar>2 * v\<bar> < 2 powr (of_int (double_exponent v + 1) + 53)"
    by (simp only: b abs_mult abs_numeral)
qed

lemma fl_twice: "fl (2 * v) = 2 * fl v"
proof (cases "v = 0")
  case True
  then show ?thesis by (simp add: fl_0)
next
  case False
  have p: "(2::real) powr (of_int (double_exponent v) + 1) = 2 * 2 powr of_int (double_exponent v)"
    by (simp add: powr_add)
  show ?thesis
    using False by (simp add: fl_def double_exponent_twice p)
qed

lemma fl_1: "fl 1 = 1"
  using fl_eval [where k = 52 and v = 1] by (simp add: roundTiesToEven_def)

lemma fl_half: "fl (1 / 2) = 1 / 2"
  using fl_twice [of "1 / 2"] by (simp add: fl_1)

lemma fl_half_le:
  assumes "0 \<le> v" "v \<le> 1 / 2"
  shows "fl v \<le> 1 / 2"
proof -
  have "fl (2 * v) \<le> 1" using assms by (intro fl_le_1) simp_all
  then show ?thesis by (simp add: fl_twice)
qed

lemma local_parameter_range:
  assumes "0 \<le> d" "d \<le> 1 / 2"
  shows "0 \<le> fl (fl d / (1 / 2))" and "fl (fl d / (1 / 2)) \<le> 1"
proof -
  have a: "0 \<le> fl d" by (rule fl_nonneg [OF assms(1)])
  have b: "fl d \<le> 1 / 2" by (rule fl_half_le [OF assms])
  show "0 \<le> fl (fl d / (1 / 2))" using a by (intro fl_nonneg) simp
  show "fl (fl d / (1 / 2)) \<le> 1" using a b by (intro fl_le_1) simp_all
qed

lemma hermiteCoefficients_r_pair:
  assumes "0 \<le> u" "u \<le> 1"
  shows "\<exists>w c2 c3. hermiteCoefficients_r fl u = (fl (w + 1), - w, c2, c3) \<and> \<bar>w\<bar> \<le> 6"
proof -
  define y where "y = fl (u * u)"
  define x where "x = fl (y * u)"
  define P where "P = fl (2 * x)"
  define Q where "Q = fl (3 * y)"
  define w where "w = fl (P - Q)"
  have uu: "0 \<le> u * u" "u * u \<le> 1"
    using assms by (simp_all add: mult_le_one)
  have y: "0 \<le> y" "y \<le> 1"
    unfolding y_def using uu by (simp_all add: fl_nonneg fl_le_1)
  have yu: "0 \<le> y * u" "y * u \<le> 1"
    using assms y by (simp_all add: mult_le_one)
  have x: "0 \<le> x" "x \<le> 1"
    unfolding x_def using yu by (simp_all add: fl_nonneg fl_le_1)
  have "\<bar>P\<bar> \<le> (1 + 1 / 2 ^ 53) * \<bar>2 * x\<bar>" unfolding P_def by (rule fl_abs_upper)
  then have P: "\<bar>P\<bar> \<le> (1 + 1 / 2 ^ 53) * 2" using x by simp
  have "\<bar>Q\<bar> \<le> (1 + 1 / 2 ^ 53) * \<bar>3 * y\<bar>" unfolding Q_def by (rule fl_abs_upper)
  then have Q: "\<bar>Q\<bar> \<le> (1 + 1 / 2 ^ 53) * 3" using y by simp
  have "(1 + 1 / 2 ^ 53) * 2 \<le> (11 / 5 :: real)" "(1 + 1 / 2 ^ 53) * 3 \<le> (33 / 10 :: real)"
    by simp_all
  with P Q have PQ: "\<bar>P - Q\<bar> \<le> 11 / 2" by linarith
  have "\<bar>w\<bar> \<le> (1 + 1 / 2 ^ 53) * \<bar>P - Q\<bar>" unfolding w_def by (rule fl_abs_upper)
  also have "\<dots> \<le> (1 + 1 / 2 ^ 53) * (11 / 2)"
    using PQ by (intro mult_left_mono) simp_all
  also have "\<dots> \<le> 6" by simp
  finally have w: "\<bar>w\<bar> \<le> 6" .
  have m3: "fl (- 3 * y) = - Q" using fl_minus [of "3 * y"] by (simp add: Q_def)
  have m2: "fl (- 2 * x) = - P" using fl_minus [of "2 * x"] by (simp add: P_def)
  have mw: "fl (Q - P) = - w" using fl_minus [of "P - Q"] by (simp add: w_def)
  have fw: "fl w = w" by (simp add: w_def fl_idem)
  have c0: "multiplyByVector_row fl (2, - 3, 0, 1) (x, y, u, 1) = fl (w + 1)"
    unfolding multiplyByVector_row_def prod.case
    by (simp only: m3 mult_zero_left mult_1 fl_0 fl_1 add_0_right fl_idem
          P_def [symmetric] add_uminus_conv_diff w_def [symmetric] fw)
  have c1: "multiplyByVector_row fl (- 2, 3, 0, 0) (x, y, u, 1) = - w"
    unfolding multiplyByVector_row_def prod.case
    by (simp only: m2 mult_zero_left fl_0 add_0_right fl_idem Q_def [symmetric]
          uminus_add_conv_diff mw fl_minus fw)
  have "hermiteCoefficients_r fl u
      = (fl (w + 1), - w, multiplyByVector_row fl (1, - 2, 1, 0) (x, y, u, 1),
         multiplyByVector_row fl (1, - 1, 0, 0) (x, y, u, 1))"
    unfolding hermiteCoefficients_r_def timeVec_def Let_def
    by (simp only: y_def [symmetric] x_def [symmetric] c0 c1)
  with w show ?thesis by blast
qed

lemma coincident_coordinate:
  assumes "\<bar>w\<bar> \<le> 6"
  shows "\<bar>fl (fl (x * fl (w + 1)) + fl (x * (- w))) - x\<bar> \<le> \<bar>x\<bar> / 2 ^ 48"
proof -
  define c0 where "c0 = fl (w + 1)"
  define A where "A = fl (x * c0)"
  define B where "B = fl (x * (- w))"
  define X where "X = \<bar>x\<bar>"
  define e where "e = X / 2 ^ 53"
  have X0: "0 \<le> X" by (simp add: X_def)
  have e0: "0 \<le> e" using X0 by (simp add: e_def)
  have eX: "21 * e \<le> X" using X0 by (simp add: e_def)
  have w1: "\<bar>w + 1\<bar> \<le> 7" using assms by linarith
  have "\<bar>c0 - (w + 1)\<bar> \<le> \<bar>w + 1\<bar> / 2 ^ 53" unfolding c0_def by (rule fl_error)
  also have "\<dots> \<le> 7 / 2 ^ 53" using w1 by (intro divide_right_mono) simp_all
  finally have c0e: "\<bar>c0 - (w + 1)\<bar> \<le> 7 / 2 ^ 53" .
  have "7 / 2 ^ 53 \<le> (1::real)" by simp
  with c0e w1 have c0b: "\<bar>c0\<bar> \<le> 8" by linarith
  have "\<bar>x * c0\<bar> = X * \<bar>c0\<bar>" by (simp add: abs_mult X_def)
  also have "\<dots> \<le> X * 8" using c0b X0 by (intro mult_left_mono)
  finally have xc0: "\<bar>x * c0\<bar> \<le> X * 8" .
  have "\<bar>A - x * c0\<bar> \<le> \<bar>x * c0\<bar> / 2 ^ 53" unfolding A_def by (rule fl_error)
  also have "\<dots> \<le> X * 8 / 2 ^ 53" using xc0 by (intro divide_right_mono) simp_all
  finally have Ae: "\<bar>A - x * c0\<bar> \<le> 8 * e" by (simp add: e_def)
  have "\<bar>x * (- w)\<bar> = X * \<bar>w\<bar>" by (simp add: abs_mult X_def)
  also have "\<dots> \<le> X * 6" using assms X0 by (intro mult_left_mono)
  finally have xw: "\<bar>x * (- w)\<bar> \<le> X * 6" .
  have "\<bar>B - x * (- w)\<bar> \<le> \<bar>x * (- w)\<bar> / 2 ^ 53" unfolding B_def by (rule fl_error)
  also have "\<dots> \<le> X * 6 / 2 ^ 53" using xw by (intro divide_right_mono) simp_all
  finally have Be: "\<bar>B - x * (- w)\<bar> \<le> 6 * e" by (simp add: e_def)
  have "\<bar>x * (c0 - (w + 1))\<bar> = X * \<bar>c0 - (w + 1)\<bar>" by (simp add: abs_mult X_def)
  also have "\<dots> \<le> X * (7 / 2 ^ 53)" using c0e X0 by (intro mult_left_mono)
  finally have Ce: "\<bar>x * (c0 - (w + 1))\<bar> \<le> 7 * e" by (simp add: e_def)
  have split: "A + B - x = (A - x * c0) + (B - x * (- w)) + x * (c0 - (w + 1))"
    by (simp add: algebra_simps)
  have S: "\<bar>A + B - x\<bar> \<le> 21 * e"
    unfolding split using Ae Be Ce by linarith
  have "\<bar>x\<bar> = X" by (simp add: X_def)
  with S eX have AB: "\<bar>A + B\<bar> \<le> X * 2" by linarith
  have "\<bar>fl (A + B) - (A + B)\<bar> \<le> \<bar>A + B\<bar> / 2 ^ 53" by (rule fl_error)
  also have "\<dots> \<le> X * 2 / 2 ^ 53" using AB by (intro divide_right_mono) simp_all
  finally have F: "\<bar>fl (A + B) - (A + B)\<bar> \<le> 2 * e" by (simp add: e_def)
  have "\<bar>fl (A + B) - x\<bar> \<le> 23 * e" using F S by linarith
  also have "\<dots> \<le> X / 2 ^ 48" using X0 by (simp add: e_def)
  finally show ?thesis by (simp add: A_def B_def c0_def X_def)
qed

lemma coincident_tangents:
  assumes "fl (cx a) = cx a" "fl (cy a) = cy a" "fl (cz a) = cz a"
  shows "multiplyByScalar_r fl
           (subtract_r fl (subtract_r fl (multiplyByScalar_r fl a 2) a) a) (1/2) = Cartesian3 0 0 0"
    and "multiplyByScalar_r fl (subtract_r fl a a) (1/2) = Cartesian3 0 0 0"
    and "multiplyByScalar_r fl
           (add_r fl (subtract_r fl a (multiplyByScalar_r fl a 2)) a) (1/2) = Cartesian3 0 0 0"
proof -
  have t: "fl (x * 2) = x * 2" if "fl x = x" for x
    using fl_twice [of x] that by (simp add: mult.commute)
  have m: "fl (- x) = - x" if "fl x = x" for x
    using that by (simp add: fl_minus)
  show "multiplyByScalar_r fl
           (subtract_r fl (subtract_r fl (multiplyByScalar_r fl a 2) a) a) (1/2) = Cartesian3 0 0 0"
    by (simp add: multiplyByScalar_r_def subtract_r_def t assms fl_0)
  show "multiplyByScalar_r fl (subtract_r fl a a) (1/2) = Cartesian3 0 0 0"
    by (simp add: multiplyByScalar_r_def subtract_r_def fl_0)
  show "multiplyByScalar_r fl
           (add_r fl (subtract_r fl a (multiplyByScalar_r fl a 2)) a) (1/2) = Cartesian3 0 0 0"
    by (simp add: multiplyByScalar_r_def subtract_r_def add_r_def t m assms fl_0)
qed

lemma blend_r_coincident:
  "blend_r fl a a (Cartesian3 0 0 0) (Cartesian3 0 0 0) (c0, c1, c2, c3)
     = Cartesian3 (fl (fl (cx a * c0) + fl (cx a * c1)))
                  (fl (fl (cy a * c0) + fl (cy a * c1)))
                  (fl (fl (cz a * c0) + fl (cz a * c1)))"
  by (simp add: blend_r_def add_r_def multiplyByScalar_r_def fl_0 fl_idem)

lemma curvePoint_r_coincident:
  assumes a: "fl (cx a) = cx a" "fl (cy a) = cy a" "fl (cz a) = cz a"
    and t: "0 \<le> t" "t \<le> 1"
  shows "\<bar>cx (curvePoint_r fl a a a t) - cx a\<bar> \<le> \<bar>cx a\<bar> / 2 ^ 48
       \<and> \<bar>cy (curvePoint_r fl a a a t) - cy a\<bar> \<le> \<bar>cy a\<bar> / 2 ^ 48
       \<and> \<bar>cz (curvePoint_r fl a a a t) - cz a\<bar> \<le> \<bar>cz a\<bar> / 2 ^ 48"
proof -
  define d where "d = (if t < 1/2 then t else t - 1/2)"
  define u where "u = fl (fl d / (1/2))"
  have d: "0 \<le> d" "d \<le> 1/2" using t by (simp_all add: d_def)
  have u: "0 \<le> u" "u \<le> 1"
    unfolding u_def by (rule local_parameter_range [OF d])+
  obtain w c2 c3 where h: "hermiteCoefficients_r fl u = (fl (w + 1), - w, c2, c3)"
    and w: "\<bar>w\<bar> \<le> 6"
    using hermiteCoefficients_r_pair [OF u] by blast
  have "curvePoint_r fl a a a t
      = blend_r fl a a (Cartesian3 0 0 0) (Cartesian3 0 0 0) (hermiteCoefficients_r fl u)"
    unfolding curvePoint_r_def coincident_tangents [OF a]
    by (simp add: u_def d_def fl_half)
  then have "curvePoint_r fl a a a t
      = Cartesian3 (fl (fl (cx a * fl (w + 1)) + fl (cx a * (- w))))
                   (fl (fl (cy a * fl (w + 1)) + fl (cy a * (- w))))
                   (fl (fl (cz a * fl (w + 1)) + fl (cz a * (- w))))"
    by (simp only: h blend_r_coincident)
  then show ?thesis
    by (simp only: Cartesian3.sel coincident_coordinate [OF w] simp_thms)
qed

lemma sqrt3_le_sum_abs: "sqrt (x * x + y * y + z * z) \<le> \<bar>x\<bar> + \<bar>y\<bar> + \<bar>z\<bar>"
proof (rule real_le_lsqrt)
  have "0 \<le> \<bar>x\<bar> * \<bar>y\<bar>" "0 \<le> \<bar>x\<bar> * \<bar>z\<bar>" "0 \<le> \<bar>y\<bar> * \<bar>z\<bar>" by simp_all
  moreover have "(\<bar>x\<bar> + \<bar>y\<bar> + \<bar>z\<bar>)\<^sup>2
      = x * x + y * y + z * z + 2 * (\<bar>x\<bar> * \<bar>y\<bar>) + 2 * (\<bar>x\<bar> * \<bar>z\<bar>) + 2 * (\<bar>y\<bar> * \<bar>z\<bar>)"
    by (simp add: power2_eq_square algebra_simps)
  ultimately show "x * x + y * y + z * z \<le> (\<bar>x\<bar> + \<bar>y\<bar> + \<bar>z\<bar>)\<^sup>2" by linarith
qed simp

lemma distance_le_sum_abs:
  "distance p q \<le> \<bar>cx p - cx q\<bar> + \<bar>cy p - cy q\<bar> + \<bar>cz p - cz q\<bar>"
  unfolding distance_def magnitude_def magnitudeSquared_def subtract_def Cartesian3.sel
  by (rule sqrt3_le_sum_abs)

lemma pathLength_near:
  assumes "\<forall>p \<in> set ps. distance p a \<le> r"
  shows "pathLength ps \<le> real (length ps) * (2 * r)"
  using assms
proof (induction ps rule: pathLength.induct)
  case 1
  then show ?case by simp
next
  case (2 p)
  have "0 \<le> distance p a" by (rule distance_nonneg)
  with 2 show ?case by simp
next
  case (3 p q ps)
  have "distance p q \<le> distance p a + distance a q" by (rule distance_triangle)
  also have "distance a q = distance q a" by (rule distance_commute)
  finally have "distance p q \<le> 2 * r" using 3(2) by simp
  moreover have "pathLength (q # ps) \<le> real (length (q # ps)) * (2 * r)"
    using 3 by simp
  ultimately show ?case by (simp add: algebra_simps)
qed

lemma samples_r_coincident_near:
  assumes a: "fl (cx a) = cx a" "fl (cy a) = cy a" "fl (cz a) = cz a"
  shows "\<forall>p \<in> set (samples_r fl a a a n). distance p a \<le> (\<bar>cx a\<bar> + \<bar>cy a\<bar> + \<bar>cz a\<bar>) / 2 ^ 48"
proof
  fix p
  assume "p \<in> set (samples_r fl a a a n)"
  then obtain i where i: "i < nat n" and p: "p = curvePoint_r fl a a a (fl (real i / real_of_int n))"
    by (auto simp add: samples_r_def)
  have n: "0 < n" using i by simp
  have "0 \<le> real i / real_of_int n" "real i / real_of_int n \<le> 1"
    using i n by simp_all
  then have t: "0 \<le> fl (real i / real_of_int n)" "fl (real i / real_of_int n) \<le> 1"
    by (simp_all add: fl_nonneg fl_le_1)
  have "distance p a \<le> \<bar>cx p - cx a\<bar> + \<bar>cy p - cy a\<bar> + \<bar>cz p - cz a\<bar>"
    by (rule distance_le_sum_abs)
  also have "\<dots> \<le> \<bar>cx a\<bar> / 2 ^ 48 + \<bar>cy a\<bar> / 2 ^ 48 + \<bar>cz a\<bar> / 2 ^ 48"
    unfolding p using curvePoint_r_coincident [OF a t] by (intro add_mono) simp_all
  finally show "distance p a \<le> (\<bar>cx a\<bar> + \<bar>cy a\<bar> + \<bar>cz a\<bar>) / 2 ^ 48"
    by (simp add: add_divide_distrib)
qed

lemma coincident_measured_small:
  assumes a: "fl (cx a) = cx a" "fl (cy a) = cy a" "fl (cz a) = cz a"
  shows "measureCurveDistance_r fl (samples_r fl a a a n)
       \<le> (1 + 1 / 2 ^ 53) ^ (nat n + 3)
           * (real (nat n) * ((\<bar>cx a\<bar> + \<bar>cy a\<bar> + \<bar>cz a\<bar>) / 2 ^ 47))"
proof -
  let ?ps = "samples_r fl a a a n"
  let ?S = "\<bar>cx a\<bar> + \<bar>cy a\<bar> + \<bar>cz a\<bar>"
  have "pathLength ?ps \<le> real (length ?ps) * (2 * (?S / 2 ^ 48))"
    by (rule pathLength_near [OF samples_r_coincident_near [OF a]])
  also have "\<dots> = real (nat n) * (?S / 2 ^ 47)"
    by (simp add: length_samples_r)
  finally have p: "pathLength ?ps \<le> real (nat n) * (?S / 2 ^ 47)" .
  have "measureCurveDistance_r fl ?ps \<le> (1 + 1 / 2 ^ 53) ^ (length ?ps + 3) * pathLength ?ps"
    by (rule measureCurveDistance_r_upper)
  also have "\<dots> \<le> (1 + 1 / 2 ^ 53) ^ (nat n + 3) * (real (nat n) * (?S / 2 ^ 47))"
    unfolding length_samples_r using p by (intro mult_left_mono) simp_all
  finally show ?thesis .
qed

subsection \<open>Coincident control points\<close>

text \<open>
  Claim C6, as amended. When the three control points coincide, the fitter succeeds. In
  exact arithmetic all \<open>n\<close> samples are that point and the measured length is 0. In double
  arithmetic (no intermediate result overflowing or underflowing) the sampler returns \<open>n\<close>
  samples as well and the measured length need not be 0: it is not negative, and for a point
  \<open>(x, y, z)\<close> of doubles it is at most
  \<open>(1 + 2\<^sup>-\<^sup>5\<^sup>3)\<^sup>n\<^sup>+\<^sup>3 \<cdot> n \<cdot> (\<bar>x\<bar> + \<bar>y\<bar> + \<bar>z\<bar>) \<cdot> 2\<^sup>-\<^sup>4\<^sup>7\<close>. For arbitrary control points neither the
  fitter nor the sampler fails, in either arithmetic.
\<close>

theorem coincident_triple_lengths:
  assumes "1 \<le> n"
  shows "(\<exists>spline. fitCurve a a a = Inr spline)
       \<and> createCurvePoints a a a n = Inr (replicate (nat n) a)
       \<and> measureCurveDistance (replicate (nat n) a) = 0
       \<and> createCurvePoints_r fl a a a n = Inr (samples_r fl a a a n)
       \<and> length (samples_r fl a a a n) = nat n
       \<and> 0 \<le> measureCurveDistance_r fl (samples_r fl a a a n)
       \<and> (fl (cx a) = cx a \<and> fl (cy a) = cy a \<and> fl (cz a) = cz a \<longrightarrow>
            measureCurveDistance_r fl (samples_r fl a a a n)
              \<le> (1 + 1 / 2 ^ 53) ^ (nat n + 3)
                  * (real (nat n) * ((\<bar>cx a\<bar> + \<bar>cy a\<bar> + \<bar>cz a\<bar>) / 2 ^ 47)))
       \<and> (\<exists>spline ps. fitCurve a b c = Inr spline \<and> createCurvePoints a b c n = Inr ps)
       \<and> (\<exists>ps. createCurvePoints_r fl a b c n = Inr ps \<and> length ps = nat n)"
proof (intro conjI impI)
  show "measureCurveDistance_r fl (samples_r fl a a a n)
      \<le> (1 + 1 / 2 ^ 53) ^ (nat n + 3)
          * (real (nat n) * ((\<bar>cx a\<bar> + \<bar>cy a\<bar> + \<bar>cz a\<bar>) / 2 ^ 47))"
    if "fl (cx a) = cx a \<and> fl (cy a) = cy a \<and> fl (cz a) = cz a"
    using that by (intro coincident_measured_small) simp_all
  show "\<exists>spline. fitCurve a a a = Inr spline"
    by (simp add: fitCurve_Inr)
  have "map (\<lambda>i. curvePoint a a a (real i / real_of_int n)) [0..<nat n] = replicate (nat n) a"
    by (simp add: curvePoint_coincident map_replicate_const)
  then show "createCurvePoints a a a n = Inr (replicate (nat n) a)"
    by (simp add: createCurvePoints_Inr)
  show "measureCurveDistance (replicate (nat n) a) = 0"
    by (rule measureCurveDistance_replicate)
  show "createCurvePoints_r fl a a a n = Inr (samples_r fl a a a n)"
    by (rule createCurvePoints_r_fl)
  show "length (samples_r fl a a a n) = nat n"
    by (rule length_samples_r)
  show "0 \<le> measureCurveDistance_r fl (samples_r fl a a a n)"
    by (rule measureCurveDistance_r_nonneg)
  show "\<exists>spline ps. fitCurve a b c = Inr spline \<and> createCurvePoints a b c n = Inr ps"
    by (simp add: fitCurve_Inr createCurvePoints_Inr)
  show "\<exists>ps. createCurvePoints_r fl a b c n = Inr ps \<and> length ps = nat n"
    by (simp add: createCurvePoints_r_fl length_samples_r)
qed

theorem coincident_triple_lengths_witness:
  "(1::int) \<le> 50
   \<and> createCurvePoints (Cartesian3 1 2 3) (Cartesian3 1 2 3) (Cartesian3 1 2 3) 50
       = Inr (replicate 50 (Cartesian3 1 2 3))
   \<and> measureCurveDistance (replicate 50 (Cartesian3 1 2 3)) = 0
   \<and> length (samples_r fl (Cartesian3 1 2 3) (Cartesian3 1 2 3) (Cartesian3 1 2 3) 50) = 50
   \<and> 0 \<le> measureCurveDistance_r fl
           (samples_r fl (Cartesian3 1 2 3) (Cartesian3 1 2 3) (Cartesian3 1 2 3) 50)
   \<and> fl 1 = 1 \<and> fl 2 = 2 \<and> fl 3 = 3
   \<and> measureCurveDistance_r fl
         (samples_r fl (Cartesian3 1 2 3) (Cartesian3 1 2 3) (Cartesian3 1 2 3) 50)
       \<le> (1 + 1 / 2 ^ 53) ^ 53 * (50 * (6 / 2 ^ 47))"
proof -
  have d: "fl 1 = 1" "fl 2 = 2" "fl 3 = 3"
    by (simp_all add: fl_evals roundTiesToEven_def)
  have "(1::int) \<le> 50" by simp
  from coincident_triple_lengths [OF this, of "Cartesian3 1 2 3"] d
  show ?thesis by simp
qed

text \<open>
  Claim C6 as stated fails in double arithmetic. For the point \<open>(1, 2, 3)\<close> captured three
  times the handler asks for 50 samples; the blend rounds the sample at \<open>t = 27 / 50\<close> to
  \<open>(1, 2, 3 - 2\<^sup>-\<^sup>5\<^sup>1)\<close>, that is \<^verbatim>\<open>(1, 2, 2.9999999999999996)\<close>, and the measured length
  is positive.
\<close>

theorem coincident_triple_measures_nonzero:
  "numInterpolationPoints (Cartesian3 1 2 3) (Cartesian3 1 2 3) (Cartesian3 1 2 3) = 50
   \<and> createCurvePoints_r fl (Cartesian3 1 2 3) (Cartesian3 1 2 3) (Cartesian3 1 2 3) 50
       = Inr (samples_r fl (Cartesian3 1 2 3) (Cartesian3 1 2 3) (Cartesian3 1 2 3) 50)
   \<and> samples_r fl (Cartesian3 1 2 3) (Cartesian3 1 2 3) (Cartesian3 1 2 3) 50 ! 27
       = Cartesian3 1 2 (3 - 1 / 2 ^ 51)
   \<and> 0 < measureCurveDistance_r fl
           (samples_r fl (Cartesian3 1 2 3) (Cartesian3 1 2 3) (Cartesian3 1 2 3) 50)"
proof (intro conjI)
  have "round (0::real) = 0" by simp
  then show "numInterpolationPoints (Cartesian3 1 2 3) (Cartesian3 1 2 3) (Cartesian3 1 2 3) = 50"
    by (simp add: numInterpolationPoints_def Math_round_round distance_self)
qed (simp_all only: createCurvePoints_r_fl samples_123 measured_123_positive)

subsection \<open>Reversal\<close>

text \<open>
  Claim C10, as amended. In exact arithmetic \<open>measureCurveDistance\<close> gives the same length for
  a list of points and for the reversed list. In double arithmetic (no intermediate result
  overflowing or underflowing) the reversed list has the same chord lengths in the opposite
  order (the rounded distance is symmetric), and these are added from left to right with a
  rounding after every addition, so that the two results may differ in the last digits: each
  of them lies between \<open>(1 - 2\<^sup>-\<^sup>5\<^sup>3)\<^sup>k\<^sup>+\<^sup>3 \<cdot> L\<close> and \<open>(1 + 2\<^sup>-\<^sup>5\<^sup>3)\<^sup>k\<^sup>+\<^sup>3 \<cdot> L\<close>, where \<open>L\<close> is the exact
  length and \<open>k\<close> the number of points; for lists of at most three points they are equal.
\<close>

theorem measureCurveDistance_rev_chords:
  "measureCurveDistance (rev points) = measureCurveDistance points
   \<and> chords_r fl (rev points) = rev (chords_r fl points)
   \<and> measureCurveDistance_r fl points
       = foldl (\<lambda>acc c. fl (acc + c)) 0 (chords_r fl points)
   \<and> measureCurveDistance_r fl (rev points)
       = foldl (\<lambda>acc c. fl (acc + c)) 0 (rev (chords_r fl points))
   \<and> (1 - 1 / 2 ^ 53) ^ (length points + 3) * measureCurveDistance points
         \<le> measureCurveDistance_r fl points
   \<and> measureCurveDistance_r fl points
         \<le> (1 + 1 / 2 ^ 53) ^ (length points + 3) * measureCurveDistance points
   \<and> (1 - 1 / 2 ^ 53) ^ (length points + 3) * measureCurveDistance points
         \<le> measureCurveDistance_r fl (rev points)
   \<and> measureCurveDistance_r fl (rev points)
         \<le> (1 + 1 / 2 ^ 53) ^ (length points + 3) * measureCurveDistance points
   \<and> (length points \<le> 3 \<longrightarrow>
         measureCurveDistance_r fl (rev points) = measureCurveDistance_r fl points)"
proof (intro conjI impI)
  show "(1 - 1 / 2 ^ 53) ^ (length points + 3) * measureCurveDistance points
      \<le> measureCurveDistance_r fl points"
    unfolding measureCurveDistance_pathLength by (rule measureCurveDistance_r_lower)
  show "measureCurveDistance_r fl points
      \<le> (1 + 1 / 2 ^ 53) ^ (length points + 3) * measureCurveDistance points"
    unfolding measureCurveDistance_pathLength by (rule measureCurveDistance_r_upper)
  show "(1 - 1 / 2 ^ 53) ^ (length points + 3) * measureCurveDistance points
      \<le> measureCurveDistance_r fl (rev points)"
    using measureCurveDistance_r_lower [of "rev points"]
    by (simp add: measureCurveDistance_pathLength pathLength_rev)
  show "measureCurveDistance_r fl (rev points)
      \<le> (1 + 1 / 2 ^ 53) ^ (length points + 3) * measureCurveDistance points"
    using measureCurveDistance_r_upper [of "rev points"]
    by (simp add: measureCurveDistance_pathLength pathLength_rev)
  show "measureCurveDistance (rev points) = measureCurveDistance points"
    by (simp add: measureCurveDistance_pathLength pathLength_rev)
  show "chords_r fl (rev points) = rev (chords_r fl points)"
    by (rule chords_r_rev)
  show "measureCurveDistance_r fl points
      = foldl (\<lambda>acc c. fl (acc + c)) 0 (chords_r fl points)"
    by (rule measureCurveDistance_r_chords)
  show "measureCurveDistance_r fl (rev points)
      = foldl (\<lambda>acc c. fl (acc + c)) 0 (rev (chords_r fl points))"
    by (simp only: measureCurveDistance_r_chords chords_r_rev)
  show "measureCurveDistance_r fl (rev points) = measureCurveDistance_r fl points"
    if "length points \<le> 3"
    using that by (rule measureCurveDistance_r_rev_short)
qed

theorem measureCurveDistance_rev_chords_witness:
  "length [Cartesian3 0 0 0, Cartesian3 3 4 0, Cartesian3 3 4 12] \<le> 3
   \<and> measureCurveDistance_r fl (rev [Cartesian3 0 0 0, Cartesian3 3 4 0, Cartesian3 3 4 12])
       = measureCurveDistance_r fl [Cartesian3 0 0 0, Cartesian3 3 4 0, Cartesian3 3 4 12]"
  using measureCurveDistance_rev_chords
          [of "[Cartesian3 0 0 0, Cartesian3 3 4 0, Cartesian3 3 4 12]"]
  by simp

text \<open>
  Claim C10 as stated fails in double arithmetic from four points on. The points below are
  \<^verbatim>\<open>(0, 0, 0)\<close>, \<^verbatim>\<open>(0.1, 0, 0)\<close>, \<^verbatim>\<open>(0.1, 0.2, 0)\<close> and \<^verbatim>\<open>(0.1, 0.2, 0.3)\<close>, written
  as the doubles that these decimals denote. Their chord lengths are the doubles \<^verbatim>\<open>0.1\<close>,
  \<^verbatim>\<open>0.2\<close> and \<^verbatim>\<open>0.3\<close>; added in this order they give \<^verbatim>\<open>0.6000000000000001\<close>, in the
  opposite order \<^verbatim>\<open>0.6\<close>.
\<close>

theorem reversed_list_measures_differently:
  "measureCurveDistance_r fl
     [Cartesian3 0 0 0,
      Cartesian3 (3602879701896397 / 36028797018963968) 0 0,
      Cartesian3 (3602879701896397 / 36028797018963968) (3602879701896397 / 18014398509481984) 0,
      Cartesian3 (3602879701896397 / 36028797018963968) (3602879701896397 / 18014398509481984)
        (5404319552844595 / 18014398509481984)]
     = 1351079888211149 / 2251799813685248
   \<and> measureCurveDistance_r fl
       (rev [Cartesian3 0 0 0,
             Cartesian3 (3602879701896397 / 36028797018963968) 0 0,
             Cartesian3 (3602879701896397 / 36028797018963968)
               (3602879701896397 / 18014398509481984) 0,
             Cartesian3 (3602879701896397 / 36028797018963968)
               (3602879701896397 / 18014398509481984) (5404319552844595 / 18014398509481984)])
     = 5404319552844595 / 9007199254740992
   \<and> (1351079888211149 / 2251799813685248 :: real) \<noteq> 5404319552844595 / 9007199254740992"
proof (intro conjI)
  let ?ps = "[Cartesian3 0 0 0,
      Cartesian3 (3602879701896397 / 36028797018963968) 0 0,
      Cartesian3 (3602879701896397 / 36028797018963968) (3602879701896397 / 18014398509481984) 0,
      Cartesian3 (3602879701896397 / 36028797018963968) (3602879701896397 / 18014398509481984)
        (5404319552844595 / 18014398509481984)]"
  show "measureCurveDistance_r fl ?ps = 1351079888211149 / 2251799813685248"
    by (simp only: measureCurveDistance_r_chords chords_tenths sums_tenths)
  have "measureCurveDistance_r fl (rev ?ps)
      = foldl (\<lambda>acc c. fl (acc + c)) 0 (rev (chords_r fl ?ps))"
    by (simp only: measureCurveDistance_r_chords chords_r_rev)
  then show "measureCurveDistance_r fl (rev ?ps) = 5404319552844595 / 9007199254740992"
    by (simp only: chords_tenths sums_tenths)
  show "(1351079888211149 / 2251799813685248 :: real) \<noteq> 5404319552844595 / 9007199254740992"
    by simp
qed

subsection \<open>The straight-line bound\<close>

text \<open>
  Claim C7, as amended. For all control points and every \<open>n \<ge> 1\<close> (the number the handler
  computes is one) the sampled polyline starts at the first control point and ends at the
  curve point for \<open>t = (n - 1) / n\<close>, not at the last control point. Its measured length is
  at least the straight-line distance between its first and its last sample: exactly so in
  exact arithmetic, and up to the factor \<open>(1 - 2\<^sup>-\<^sup>5\<^sup>3)\<^sup>n\<^sup>+\<^sup>3\<close> in double arithmetic (no
  intermediate result overflowing or underflowing).
\<close>

theorem sampled_length_lower_bound:
  assumes "1 \<le> n"
  shows "(\<exists>spline ps. fitCurve a b c = Inr spline \<and> createCurvePoints a b c n = Inr ps
            \<and> length ps = nat n \<and> hd ps = a
            \<and> evaluate spline (real (nat n - 1) / real_of_int n) = Inr (last ps)
            \<and> distance a (last ps) \<le> measureCurveDistance ps)
       \<and> createCurvePoints_r fl a b c n = Inr (samples_r fl a b c n)
       \<and> length (samples_r fl a b c n) = nat n
       \<and> (1 - 1 / 2 ^ 53) ^ (nat n + 3)
            * distance (hd (samples_r fl a b c n)) (last (samples_r fl a b c n))
           \<le> measureCurveDistance_r fl (samples_r fl a b c n)
       \<and> 1 \<le> numInterpolationPoints a b c"
proof (intro conjI)
  obtain spline where s: "fitCurve a b c = Inr spline"
    by (simp add: fitCurve_Inr)
  let ?ps = "map (\<lambda>i. curvePoint a b c (real i / real_of_int n)) [0..<nat n]"
  have ne: "?ps \<noteq> []" using assms by simp
  have l: "length ?ps = nat n" by simp
  have u: "[0..<nat n] \<noteq> []" using assms by simp
  have h: "hd ?ps = a"
    using u by (simp add: hd_map hd_upt curvePoint_0)
  have la: "last ?ps = curvePoint a b c (real (nat n - 1) / real_of_int n)"
    using u by (simp add: last_map last_upt)
  have "0 \<le> real (nat n - 1) / real_of_int n" "real (nat n - 1) / real_of_int n < 1"
    using assms by (intro sample_time_range; simp)+
  then have e: "evaluate spline (real (nat n - 1) / real_of_int n) = Inr (last ?ps)"
    by (simp add: evaluate_fitted [OF s] la)
  have "distance (hd ?ps) (last ?ps) \<le> pathLength ?ps"
    by (rule chord_le_pathLength [OF ne])
  then have d: "distance a (last ?ps) \<le> measureCurveDistance ?ps"
    by (simp only: h measureCurveDistance_pathLength)
  show "\<exists>spline ps. fitCurve a b c = Inr spline \<and> createCurvePoints a b c n = Inr ps
            \<and> length ps = nat n \<and> hd ps = a
            \<and> evaluate spline (real (nat n - 1) / real_of_int n) = Inr (last ps)
            \<and> distance a (last ps) \<le> measureCurveDistance ps"
    using s createCurvePoints_Inr [of a b c n] l h e d by blast
  show "createCurvePoints_r fl a b c n = Inr (samples_r fl a b c n)"
    by (rule createCurvePoints_r_fl)
  show "length (samples_r fl a b c n) = nat n"
    by (rule length_samples_r)
  let ?qs = "samples_r fl a b c n"
  have qne: "?qs \<noteq> []" using assms by (simp add: samples_r_def)
  have "(1 - 1 / 2 ^ 53) ^ (nat n + 3) * distance (hd ?qs) (last ?qs)
      \<le> (1 - 1 / 2 ^ 53) ^ (length ?qs + 3) * pathLength ?qs"
    unfolding length_samples_r
    by (intro mult_left_mono chord_le_pathLength [OF qne]) simp
  also have "\<dots> \<le> measureCurveDistance_r fl ?qs"
    by (rule measureCurveDistance_r_lower)
  finally show "(1 - 1 / 2 ^ 53) ^ (nat n + 3) * distance (hd ?qs) (last ?qs)
      \<le> measureCurveDistance_r fl ?qs" .
  show "1 \<le> numInterpolationPoints a b c"
    using numInterpolationPoints_ge [of a b c] by linarith
qed

theorem sampled_length_lower_bound_witness:
  "(1::int) \<le> 50
   \<and> (\<exists>ps. createCurvePoints (Cartesian3 0 0 0) (Cartesian3 (1/2) 0 0) (Cartesian3 1 0 0) 50
              = Inr ps
          \<and> length ps = 50 \<and> hd ps = Cartesian3 0 0 0
          \<and> distance (Cartesian3 0 0 0) (last ps) \<le> measureCurveDistance ps)
   \<and> length (samples_r fl (Cartesian3 0 0 0) (Cartesian3 (1/2) 0 0) (Cartesian3 1 0 0) 50) = 50"
proof -
  have "(1::int) \<le> 50" by simp
  from sampled_length_lower_bound [OF this, of "Cartesian3 0 0 0" "Cartesian3 (1/2) 0 0"
      "Cartesian3 1 0 0"]
  show ?thesis by auto
qed

text \<open>
  Claim C7 as stated fails: at the control points \<open>(0, 0, 0)\<close>, \<open>(1/2, 0, 0)\<close>,
  \<open>(1, 0, 0)\<close> the handler asks for 50 samples, the last sample is taken at \<open>t = 49 / 50\<close>,
  and the measured length is 31201/31250, less than the distance 1 from the first to the
  last control point. The values are those of exact arithmetic; \<open>samples_r id\<close> is the list
  that \<open>createCurvePoints\<close> returns.
\<close>

theorem straight_triple_measured_short:
  "numInterpolationPoints (Cartesian3 0 0 0) (Cartesian3 (1/2) 0 0) (Cartesian3 1 0 0) = 50
   \<and> createCurvePoints (Cartesian3 0 0 0) (Cartesian3 (1/2) 0 0) (Cartesian3 1 0 0) 50
       = Inr (samples_r id (Cartesian3 0 0 0) (Cartesian3 (1/2) 0 0) (Cartesian3 1 0 0) 50)
   \<and> measureCurveDistance
        (samples_r id (Cartesian3 0 0 0) (Cartesian3 (1/2) 0 0) (Cartesian3 1 0 0) 50)
       = 31201/31250
   \<and> distance (Cartesian3 0 0 0) (Cartesian3 1 0 0) = 1
   \<and> measureCurveDistance
        (samples_r id (Cartesian3 0 0 0) (Cartesian3 (1/2) 0 0) (Cartesian3 1 0 0) 50)
       < distance (Cartesian3 0 0 0) (Cartesian3 1 0 0)"
proof -
  let ?A = "Cartesian3 0 0 0" and ?B = "Cartesian3 (1/2) 0 0" and ?C = "Cartesian3 1 0 0"
  have s: "samples_r id ?A ?B ?C 50 = map (\<lambda>i. curvePoint ?A ?B ?C (real i / 50)) [0..<50]"
    by (simp add: samples_r_id)
  have "createCurvePoints ?A ?B ?C 50 = Inr (samples_r id ?A ?B ?C 50)"
    using createCurvePoints_Inr [of ?A ?B ?C 50] by (simp add: s)
  moreover have "measureCurveDistance (samples_r id ?A ?B ?C 50) = 31201/31250"
    by (simp only: s measured_straight)
  moreover have "distance ?A ?C = 1"
    by (simp add: distance_x_axis)
  ultimately show ?thesis
    using numInterpolationPoints_straight by simp
qed

end
